theory Spec2Isabelle
  imports Main "HOL-Library.AList" "HOL-Library.Multiset"
begin

section \<open>Data model of the tracking store\<close>

text \<open>
  The persisted file \<^verbatim>\<open>tracked.json\<close> is a JSON object. \<^verbatim>\<open>json.load\<close> turns it
  into Python values; the model keeps the constructors the code can tell apart.
  Two of them are instances of \<^verbatim>\<open>dict\<close>: \<open>JDict\<close> is a plain dictionary, as a
  dictionary display \<^verbatim>\<open>{...}\<close> builds it, and \<open>JAddict\<close> is an \<^verbatim>\<open>addict.Dict\<close>, which
  \<^verbatim>\<open>Addict(data)\<close> builds and puts in the place of every nested dictionary. Only
  the second allows attribute access (\<^verbatim>\<open>value.name\<close>). Numbers are integers (part
  ordinals).
\<close>

datatype json =
    JNull
  | JBool bool
  | JInt int
  | JStr string
  | JList "json list"
  | JDict "(string \<times> json) list"
  | JAddict "(string \<times> json) list"

text \<open>
  A Python \<^verbatim>\<open>dict\<close> keeps its keys unique and in insertion order: it is an
  association list, \<^verbatim>\<open>d[k] = v\<close> is \<^const>\<open>AList.update\<close> (the value is replaced
  in place when \<open>k\<close> is present, the pair is appended otherwise), \<^verbatim>\<open>del d[k]\<close> is
  \<^const>\<open>AList.delete\<close> and \<^verbatim>\<open>k in d\<close> is membership in the keys.
\<close>

type_synonym tracked = "(string \<times> json) list"

definition dict_keys :: "tracked \<Rightarrow> string list" where
  "dict_keys d = map fst d"

definition dict_contains :: "string \<Rightarrow> tracked \<Rightarrow> bool" where
  "dict_contains k d \<longleftrightarrow> k \<in> set (dict_keys d)"

datatype error =
    FileNotFoundError
  | JSONDecodeError
  | InvalidUrlError
  | NotFoundError
  | RemoteError
  | ParserError
  | NameError
  | AttributeError

section \<open>String helpers of the migration\<close>

text \<open>\<^verbatim>\<open>series_slug.replace("-", " ")\<close>: every dash becomes a space.\<close>

definition replace_dash :: "string \<Rightarrow> string" where
  "replace_dash s = map (\<lambda>c. if c = CHR ''-'' then CHR '' '' else c) s"

definition ascii_lowercase :: string where
  "ascii_lowercase = ''abcdefghijklmnopqrstuvwxyz''"

definition ascii_uppercase :: string where
  "ascii_uppercase = ''ABCDEFGHIJKLMNOPQRSTUVWXYZ''"

definition islower :: "char \<Rightarrow> bool" where
  "islower c \<longleftrightarrow> c \<in> set ascii_lowercase"

definition isupper :: "char \<Rightarrow> bool" where
  "isupper c \<longleftrightarrow> c \<in> set ascii_uppercase"

definition toupper :: "char \<Rightarrow> char" where
  "toupper c = (case map_of (zip ascii_lowercase ascii_uppercase) c of Some u \<Rightarrow> u | None \<Rightarrow> c)"

definition tolower :: "char \<Rightarrow> char" where
  "tolower c = (case map_of (zip ascii_uppercase ascii_lowercase) c of Some l \<Rightarrow> l | None \<Rightarrow> c)"

text \<open>\<^verbatim>\<open>str.isascii()\<close>: every character is below 128.\<close>

definition isascii :: "string \<Rightarrow> bool" where
  "isascii s \<longleftrightarrow> (\<forall>c \<in> set s. (of_char c :: nat) < 128)"

text \<open>
  \<^verbatim>\<open>str.title()\<close>: a cased character that follows an uncased one is upper-cased, a
  cased character that follows a cased one is lower-cased, every other character is
  kept; the flag is whether the previous character was cased. The tables of cased
  characters are those of ASCII, so \<open>title\<close> is Python's \<^verbatim>\<open>str.title()\<close> on ASCII
  strings only: Python also cases the letters beyond ASCII, which the model leaves
  alone. A statement that reads the result of \<open>title\<close> therefore carries the premise
  \<open>isascii\<close> on the slug.
\<close>

fun title_from :: "bool \<Rightarrow> string \<Rightarrow> string" where
  "title_from previous_is_cased [] = []"
| "title_from previous_is_cased (c # cs) =
     (if islower c then
        (if previous_is_cased then c else toupper c) # title_from True cs
      else if isupper c then
        (if previous_is_cased then tolower c else c) # title_from True cs
      else c # title_from False cs)"

definition title :: "string \<Rightarrow> string" where
  "title s = title_from False s"

section \<open>The URL helpers of \<^verbatim>\<open>jncweb\<close>\<close>

text \<open>
  \<^verbatim>\<open>track.py\<close> calls three functions of the module \<^verbatim>\<open>jncweb\<close>. They are parameters
  of the model, collected in one record: \<^verbatim>\<open>url_from_series_slug\<close> formats a string
  and always returns; \<^verbatim>\<open>to_new_website_series_url\<close> and \<^verbatim>\<open>resource_from_url\<close> parse
  a URL and may raise.
\<close>

record resource =
  url :: string
  follow_id :: string
  follow_title :: string

record jncweb =
  url_from_series_slug :: "string \<Rightarrow> string"
  to_new_website_series_url :: "string \<Rightarrow> error + string"
  resource_from_url :: "string \<Rightarrow> error + resource"

section \<open>Migration of the persisted format\<close>

fun isinstance_dict :: "json \<Rightarrow> bool" where
  "isinstance_dict (JDict _) = True"
| "isinstance_dict (JAddict _) = True"
| "isinstance_dict _ = False"

text \<open>
  The first loop of \<^verbatim>\<open>_convert_to_latest_format\<close>, with the dictionary
  \<^verbatim>\<open>converted\<close> as accumulator.
\<close>

fun convert_legacy_values :: "jncweb \<Rightarrow> tracked \<Rightarrow> tracked \<Rightarrow> tracked" where
  "convert_legacy_values w [] converted = converted"
| "convert_legacy_values w ((series_url_or_slug, v) # rest) converted =
     (if \<not> isinstance_dict v then
        (let series_slug = series_url_or_slug;
             series_url = url_from_series_slug w series_slug;
             name = title (replace_dash series_slug);
             v' = JAddict [(''name'', JStr name), (''part'', v)]
         in convert_legacy_values w rest (AList.update series_url v' converted))
      else convert_legacy_values w rest (AList.update series_url_or_slug v converted))"

text \<open>
  The second loop, with \<^verbatim>\<open>converted_b\<close> as accumulator; an exception of
  \<^verbatim>\<open>to_new_website_series_url\<close> leaves the function.
\<close>

fun convert_legacy_urls :: "jncweb \<Rightarrow> tracked \<Rightarrow> tracked \<Rightarrow> error + tracked" where
  "convert_legacy_urls w [] converted_b = Inr converted_b"
| "convert_legacy_urls w ((legacy_series_url, v) # rest) converted_b =
     (case to_new_website_series_url w legacy_series_url of
        Inl e \<Rightarrow> Inl e
      | Inr new_series_url \<Rightarrow>
          convert_legacy_urls w rest (AList.update new_series_url v converted_b))"

definition convert_to_latest_format :: "jncweb \<Rightarrow> tracked \<Rightarrow> error + tracked" where
  "convert_to_latest_format w data =
     convert_legacy_urls w (convert_legacy_values w data []) []"

section \<open>Loading the store\<close>

text \<open>
  \<^verbatim>\<open>read_tracked_series\<close>. The file is \<open>None\<close> when \<^verbatim>\<open>open()\<close> raises
  \<^verbatim>\<open>FileNotFoundError\<close>, its text otherwise. \<open>json_load\<close> stands for
  \<^verbatim>\<open>json.load(..., object_pairs_hook=OrderedDict)\<close> followed by \<^verbatim>\<open>Addict(data)\<close>: the
  parsed mapping, or the exception of a malformed document. The \<^verbatim>\<open>except\<close> clause
  covers the whole \<^verbatim>\<open>try\<close> body and catches \<^verbatim>\<open>FileNotFoundError\<close> only.
\<close>

definition read_tracked_series ::
  "jncweb \<Rightarrow> (string \<Rightarrow> error + tracked) \<Rightarrow> string option \<Rightarrow> error + tracked" where
  "read_tracked_series w json_load json_file =
     (let body =
        (case json_file of
           None \<Rightarrow> Inl FileNotFoundError
         | Some text \<Rightarrow>
             (case json_load text of
                Inl e \<Rightarrow> Inl e
              | Inr data \<Rightarrow> convert_to_latest_format w data))
      in case body of
           Inl e \<Rightarrow> (if e = FileNotFoundError then Inr [] else Inl e)
         | Inr converted \<Rightarrow> Inr converted)"

section \<open>The remote gateway\<close>

text \<open>
  Series metadata as \<^verbatim>\<open>track.py\<close> reads it: \<^verbatim>\<open>series.series_id\<close>,
  \<^verbatim>\<open>series.raw_data.title\<close>, \<^verbatim>\<open>series.raw_data.slug\<close>, \<^verbatim>\<open>series.volumes\<close>,
  \<^verbatim>\<open>volume.volume_id\<close>, \<^verbatim>\<open>volume.parts\<close> and \<^verbatim>\<open>part.raw_data.launch\<close>.
\<close>

record part =
  part_id :: string
  launch :: string

record volume =
  volume_id :: string
  parts :: "part list"

record series =
  series_id :: string
  raw_title :: string
  raw_slug :: string
  volumes :: "volume list"

text \<open>
  The functions of \<^verbatim>\<open>core\<close>, \<^verbatim>\<open>spec\<close>, \<^verbatim>\<open>dateutil\<close> and \<^verbatim>\<open>session.api\<close> that
  \<^verbatim>\<open>track.py\<close> awaits or calls are parameters: a snapshot of the remote service, each
  call returning its value or the exception it raises.
  \<^verbatim>\<open>to_relative_spec_from_part\<close> receives a part that carries the back references
  set by \<^verbatim>\<open>fill_meta_for_track\<close> (\<^verbatim>\<open>part.volume\<close>, \<^verbatim>\<open>volume.series\<close>); the model
  hands it the filled series next to the part.
\<close>

record gateway =
  resolve_series :: "resource \<Rightarrow> error + series"
  fetch_volumes_meta :: "string \<Rightarrow> error + volume list"
  fetch_parts_meta :: "string \<Rightarrow> error + part list"
  to_relative_spec_from_part :: "series \<Rightarrow> part \<Rightarrow> json"
  dateutil_parse :: "string \<Rightarrow> error + unit"
  follow_series :: "string \<Rightarrow> error + unit"
  unfollow_series :: "string \<Rightarrow> error + unit"

text \<open>
  Every call to the remote service is recorded together with the resource of the task
  that issued it.
\<close>

datatype call =
    ResolveSeries
  | FetchVolumesMeta string
  | FetchPartsMeta string
  | FollowSeries string
  | UnfollowSeries string

type_synonym call_log = "(resource \<times> call) list"

section \<open>Tracking one series\<close>

definition fill_meta_for_track ::
  "gateway \<Rightarrow> resource \<Rightarrow> series \<Rightarrow> (error + series) \<times> call_log" where
  "fill_meta_for_track g task s =
     (case fetch_volumes_meta g (series_id s) of
        Inl e \<Rightarrow> (Inl e, [(task, FetchVolumesMeta (series_id s))])
      | Inr vols \<Rightarrow>
          (if vols \<noteq> [] then
             (let last_volume = last vols in
              case fetch_parts_meta g (volume_id last_volume) of
                Inl e \<Rightarrow>
                  (Inl e, [(task, FetchVolumesMeta (series_id s)),
                           (task, FetchPartsMeta (volume_id last_volume))])
              | Inr ps \<Rightarrow>
                  (Inr (s\<lparr>volumes := butlast vols @ [last_volume\<lparr>parts := ps\<rparr>]\<rparr>),
                   [(task, FetchVolumesMeta (series_id s)),
                    (task, FetchPartsMeta (volume_id last_volume))]))
           else (Inr (s\<lparr>volumes := vols\<rparr>), [(task, FetchVolumesMeta (series_id s))])))"

text \<open>
  The part that \<^verbatim>\<open>track_series\<close> looks up after the metadata is filled in:
  \<^verbatim>\<open>last_part\<close> stays \<^verbatim>\<open>None\<close> unless the series has a volume and its last volume
  has a part. A part object is truthy, so \<^verbatim>\<open>not last_part\<close> holds exactly when none
  was found.
\<close>

definition last_part_of :: "series \<Rightarrow> part option" where
  "last_part_of s =
     (if volumes s \<noteq> [] then
        (let last_volume = last (volumes s) in
         if parts last_volume \<noteq> [] then Some (last (parts last_volume)) else None)
      else None)"

definition track_series ::
  "gateway \<Rightarrow> jncweb \<Rightarrow> resource \<Rightarrow> tracked \<Rightarrow> series \<Rightarrow> (error + tracked) \<times> call_log" where
  "track_series g w task tracked_series s0 =
     (case fill_meta_for_track g task s0 of
        (Inl e, cs) \<Rightarrow> (Inl e, cs)
      | (Inr s, cs) \<Rightarrow>
          (let entry = (\<lambda>pdate pn.
                 AList.update (url_from_series_slug w (raw_slug s))
                   (JDict [(''part_date'', JStr pdate), (''part'', pn),
                           (''name'', JStr (raw_title s))])
                   tracked_series)
           in case last_part_of s of
                None \<Rightarrow> (Inr (entry ''1111-11-11T11:11:11.111Z'' (JInt 0)), cs)
              | Some last_part \<Rightarrow>
                  (let pn = to_relative_spec_from_part g s last_part;
                       pdate = launch last_part
                   in case dateutil_parse g (launch last_part) of
                        Inl e \<Rightarrow> (Inl e, cs)
                      | Inr _ \<Rightarrow> (Inr (entry pdate pn), cs))))"

section \<open>Forward synchronisation\<close>

text \<open>
  The state shared by the tasks of one nursery: the tracking store, the two result
  lists, the calls made so far and the exceptions captured from failed tasks.
\<close>

record sync_state =
  store :: tracked
  new_synced :: "string list"
  del_synced :: "string list"
  calls :: call_log
  failures :: "error list"

definition do_track :: "gateway \<Rightarrow> jncweb \<Rightarrow> resource \<Rightarrow> sync_state \<Rightarrow> sync_state" where
  "do_track g w jnc_resource st =
     (case resolve_series g jnc_resource of
        Inl e \<Rightarrow>
          st\<lparr>calls := calls st @ [(jnc_resource, ResolveSeries)],
             failures := failures st @ [e]\<rparr>
      | Inr s \<Rightarrow>
          (case track_series g w jnc_resource (store st) s of
             (Inl e, cs) \<Rightarrow>
               st\<lparr>calls := calls st @ (jnc_resource, ResolveSeries) # cs,
                  failures := failures st @ [e]\<rparr>
           | (Inr tracked_series, cs) \<Rightarrow>
               st\<lparr>store := tracked_series,
                  new_synced := new_synced st @ [url_from_series_slug w (raw_slug s)],
                  calls := calls st @ (jnc_resource, ResolveSeries) # cs\<rparr>))"

text \<open>
  Modelled from the spec: \<^verbatim>\<open>trio_utils.background\<close> and \<^verbatim>\<open>trio_utils.gather\<close>, which
  are not part of the sources at hand. The tasks handed to the nursery start once the
  parent awaits, run to completion whatever happens to their siblings, and \<^verbatim>\<open>gather\<close>
  raises when at least one of them failed. A task changes the shared state in one
  piece, after its last \<^verbatim>\<open>await\<close>, so a run of the nursery is the sequence of the
  tasks in the order in which they complete: \<open>sched\<close> gives that order.
\<close>

definition run_tasks :: "('t \<Rightarrow> sync_state \<Rightarrow> sync_state) \<Rightarrow> 't list \<Rightarrow> sync_state \<Rightarrow> sync_state" where
  "run_tasks run ts st = fold run ts st"

text \<open>
  \<^verbatim>\<open>series_data.name\<close> in the log message of the deletion loop: an \<^verbatim>\<open>Addict\<close>
  answers every attribute (with an empty \<^verbatim>\<open>Addict\<close> when the key is missing); a plain
  dictionary, which is what \<^verbatim>\<open>track_series\<close> stores, and every value that is not a
  dictionary raise \<^verbatim>\<open>AttributeError\<close>.
\<close>

fun getattr_name :: "json \<Rightarrow> error + json" where
  "getattr_name (JAddict kvs) =
     (case map_of kvs ''name'' of Some v \<Rightarrow> Inr v | None \<Rightarrow> Inr (JAddict []))"
| "getattr_name _ = Inl AttributeError"

text \<open>
  The deletion loop over \<^verbatim>\<open>list(tracked_series.items())\<close>, a copy of the items
  taken before the loop. For a key that is not followed it deletes the entry, then
  builds the log message, then appends to \<^verbatim>\<open>del_synced\<close>: when the attribute access
  raises, the entry is gone, the key is not reported and the later keys are not
  visited.
\<close>

fun delete_unfollowed :: "string list \<Rightarrow> tracked \<Rightarrow> sync_state \<Rightarrow> sync_state" where
  "delete_unfollowed followed_index [] st = st"
| "delete_unfollowed followed_index ((series_url, series_data) # rest) st =
     (if series_url \<notin> set followed_index then
        (case getattr_name series_data of
           Inl e \<Rightarrow>
             st\<lparr>store := AList.delete series_url (store st),
                failures := failures st @ [e]\<rparr>
         | Inr _ \<Rightarrow>
             delete_unfollowed followed_index rest
               (st\<lparr>store := AList.delete series_url (store st),
                   del_synced := del_synced st @ [series_url]\<rparr>))
      else delete_unfollowed followed_index rest st)"

text \<open>
  The result of a synchronisation: the state it leaves behind and either the
  exceptions that \<^verbatim>\<open>gather\<close> or the deletion loop raises or the returned pair of
  lists.
\<close>

definition outcome :: "sync_state \<Rightarrow> error list + (string list \<times> string list)" where
  "outcome st =
     (if failures st \<noteq> [] then Inl (failures st) else Inr (new_synced st, del_synced st))"

definition sync_series_forward ::
  "gateway \<Rightarrow> jncweb \<Rightarrow> (resource list \<Rightarrow> resource list) \<Rightarrow>
   resource list \<Rightarrow> tracked \<Rightarrow> bool \<Rightarrow> sync_state" where
  "sync_series_forward g w sched follows tracked_series is_delete =
     (let st0 = \<lparr>store = tracked_series, new_synced = [], del_synced = [],
                 calls = [], failures = []\<rparr>;
          f_tasks = filter (\<lambda>jnc_resource. \<not> dict_contains (url jnc_resource) tracked_series)
                      follows;
          st1 = run_tasks (do_track g w) (sched f_tasks) st0
      in if failures st1 \<noteq> [] then st1
         else if is_delete then
           delete_unfollowed (map url follows) (store st1) st1
         else st1)"

section \<open>Backward synchronisation\<close>

text \<open>
  The first loop of \<^verbatim>\<open>sync_series_backward\<close> runs over the keys of the store. It
  skips a followed URL, and otherwise builds the resource with
  \<^verbatim>\<open>jncweb.resource_from_url\<close> (an exception there leaves the function before any
  task has started) and hands \<^verbatim>\<open>partial(do_follow, jnc_resource)\<close> to the nursery.
\<close>

fun spawn_follows :: "jncweb \<Rightarrow> string list \<Rightarrow> string list \<Rightarrow> resource list \<Rightarrow> error + resource list" where
  "spawn_follows w followed_index [] f_tasks = Inr f_tasks"
| "spawn_follows w followed_index (series_url # rest) f_tasks =
     (if series_url \<in> set followed_index then spawn_follows w followed_index rest f_tasks
      else case resource_from_url w series_url of
             Inl e \<Rightarrow> Inl e
           | Inr jnc_resource \<Rightarrow> spawn_follows w followed_index rest (f_tasks @ [jnc_resource]))"

text \<open>
  \<^verbatim>\<open>do_follow\<close> receives \<^verbatim>\<open>jnc_resource\<close> as its argument, bound by \<^verbatim>\<open>partial\<close>
  when the task is created, but \<^verbatim>\<open>series_url\<close> is a free variable of the closure:
  Python looks it up in the enclosing function when \<^verbatim>\<open>new_synced.append(series_url)\<close>
  runs. No task runs before the parent reaches \<^verbatim>\<open>await gather(...)\<close>, after the
  loop, so every task reads the value the loop variable has then: the last key of
  the store (skipped or not), given here as \<open>loop_variable\<close>.
\<close>

definition loop_variable :: "string list \<Rightarrow> string option" where
  "loop_variable keys = (if keys = [] then None else Some (last keys))"

definition do_follow :: "gateway \<Rightarrow> string option \<Rightarrow> resource \<Rightarrow> sync_state \<Rightarrow> sync_state" where
  "do_follow g series_url jnc_resource st =
     (case resolve_series g jnc_resource of
        Inl e \<Rightarrow>
          st\<lparr>calls := calls st @ [(jnc_resource, ResolveSeries)],
             failures := failures st @ [e]\<rparr>
      | Inr s \<Rightarrow>
          (case follow_series g (series_id s) of
             Inl e \<Rightarrow>
               st\<lparr>calls := calls st @ [(jnc_resource, ResolveSeries),
                                        (jnc_resource, FollowSeries (series_id s))],
                  failures := failures st @ [e]\<rparr>
           | Inr _ \<Rightarrow>
               (case series_url of
                  None \<Rightarrow>
                    st\<lparr>calls := calls st @ [(jnc_resource, ResolveSeries),
                                             (jnc_resource, FollowSeries (series_id s))],
                       failures := failures st @ [NameError]\<rparr>
                | Some u \<Rightarrow>
                    st\<lparr>new_synced := new_synced st @ [u],
                       calls := calls st @ [(jnc_resource, ResolveSeries),
                                             (jnc_resource, FollowSeries (series_id s))]\<rparr>)))"

text \<open>\<^verbatim>\<open>do_undollow\<close> uses its argument only.\<close>

definition do_undollow :: "gateway \<Rightarrow> resource \<Rightarrow> sync_state \<Rightarrow> sync_state" where
  "do_undollow g jnc_resource st =
     (case unfollow_series g (follow_id jnc_resource) of
        Inl e \<Rightarrow>
          st\<lparr>calls := calls st @ [(jnc_resource, UnfollowSeries (follow_id jnc_resource))],
             failures := failures st @ [e]\<rparr>
      | Inr _ \<Rightarrow>
          st\<lparr>del_synced := del_synced st @ [url jnc_resource],
             calls := calls st @ [(jnc_resource, UnfollowSeries (follow_id jnc_resource))]\<rparr>)"

datatype task = DoFollow resource | DoUnfollow resource

fun run_backward_task :: "gateway \<Rightarrow> string option \<Rightarrow> task \<Rightarrow> sync_state \<Rightarrow> sync_state" where
  "run_backward_task g series_url (DoFollow jnc_resource) st = do_follow g series_url jnc_resource st"
| "run_backward_task g series_url (DoUnfollow jnc_resource) st = do_undollow g jnc_resource st"

definition sync_series_backward ::
  "gateway \<Rightarrow> jncweb \<Rightarrow> (task list \<Rightarrow> task list) \<Rightarrow>
   resource list \<Rightarrow> tracked \<Rightarrow> bool \<Rightarrow> sync_state" where
  "sync_series_backward g w sched follows tracked_series is_delete =
     (let st0 = \<lparr>store = tracked_series, new_synced = [], del_synced = [],
                 calls = [], failures = []\<rparr>;
          followed_index = map url follows
      in case spawn_follows w followed_index (dict_keys tracked_series) [] of
           Inl e \<Rightarrow> st0\<lparr>failures := [e]\<rparr>
         | Inr follow_resources \<Rightarrow>
             (let series_url = loop_variable (dict_keys tracked_series);
                  unfollow_resources =
                    (if is_delete then
                       filter (\<lambda>jnc_resource. \<not> dict_contains (url jnc_resource) tracked_series)
                         follows
                     else []);
                  f_tasks = map DoFollow follow_resources @ map DoUnfollow unfollow_resources
              in run_tasks (run_backward_task g series_url) (sched f_tasks) st0))"

section \<open>An instance of the parameters\<close>

text \<open>
  The concrete evaluations below need one instance of the parameters. The URL
  helpers use the two address forms of the J-Novel Club site: series pages under
  \<^verbatim>\<open>/series/\<close> (current) and under \<^verbatim>\<open>/s/\<close> (legacy).
\<close>

definition startswith :: "string \<Rightarrow> string \<Rightarrow> bool" where
  "startswith prefix s \<longleftrightarrow> take (length prefix) s = prefix"

definition example_jncweb :: jncweb where
  "example_jncweb =
     \<lparr>url_from_series_slug = (\<lambda>slug. ''https://j-novel.club/series/'' @ slug),
      to_new_website_series_url = (\<lambda>u.
        if startswith ''https://j-novel.club/series/'' u then Inr u
        else if startswith ''https://j-novel.club/s/'' u
          then Inr (''https://j-novel.club/series/'' @ drop 23 u)
        else Inl InvalidUrlError),
      resource_from_url = (\<lambda>u.
        if startswith ''https://j-novel.club/series/'' u
          then Inr \<lparr>url = u, follow_id = [], follow_title = []\<rparr>
        else Inl InvalidUrlError)\<rparr>"

text \<open>
  A remote service on which every series has one volume with one part; the slug of
  a series is the last component of its address.
\<close>

definition example_gateway :: gateway where
  "example_gateway =
     \<lparr>resolve_series = (\<lambda>r.
        Inr \<lparr>series_id = ''id-'' @ drop 28 (url r), raw_title = title (drop 28 (url r)),
             raw_slug = drop 28 (url r), volumes = []\<rparr>),
      fetch_volumes_meta = (\<lambda>sid. Inr [\<lparr>volume_id = ''v1-'' @ sid, parts = []\<rparr>]),
      fetch_parts_meta = (\<lambda>vid. Inr [\<lparr>part_id = ''p1-'' @ vid, launch = ''2021-03-04T05:06:07.000Z''\<rparr>]),
      to_relative_spec_from_part = (\<lambda>s p. JInt (int (length (parts (last (volumes s)))))),
      dateutil_parse = (\<lambda>d. Inr ()),
      follow_series = (\<lambda>sid. Inr ()),
      unfollow_series = (\<lambda>sid. Inr ())\<rparr>"

text \<open>
  A remote service on which every series has two volumes: the first has one part,
  the second, the last, has none yet.
\<close>

definition example_gateway_empty_last_volume :: gateway where
  "example_gateway_empty_last_volume =
     example_gateway
       \<lparr>fetch_volumes_meta := (\<lambda>sid.
          Inr [\<lparr>volume_id = ''v1'', parts = []\<rparr>, \<lparr>volume_id = ''v2'', parts = []\<rparr>]),
        fetch_parts_meta := (\<lambda>vid.
          if vid = ''v1'' then Inr [\<lparr>part_id = ''p1'', launch = ''2021-03-04T05:06:07.000Z''\<rparr>]
          else Inr [])\<rparr>"

text \<open>A followed series of that service, as \<^verbatim>\<open>fetch_follows\<close> would list it.\<close>

definition example_resource :: "string \<Rightarrow> resource" where
  "example_resource slug =
     \<lparr>url = ''https://j-novel.club/series/'' @ slug, follow_id = ''id-'' @ slug,
      follow_title = slug\<rparr>"

section \<open>Auxiliary notions for the statements\<close>

text \<open>
  The pair that the first loop of the migration stores for one input pair, and the
  key under which the second loop stores it.
\<close>

definition converted_entry :: "jncweb \<Rightarrow> string \<times> json \<Rightarrow> string \<times> json" where
  "converted_entry w p =
     (if \<not> isinstance_dict (snd p) then
        (url_from_series_slug w (fst p),
         JAddict [(''name'', JStr (title (replace_dash (fst p)))), (''part'', snd p)])
      else p)"

definition latest_key :: "jncweb \<Rightarrow> string \<times> json \<Rightarrow> error + string" where
  "latest_key w p = to_new_website_series_url w (fst (converted_entry w p))"

section \<open>Properties of the migration\<close>

lemma convert_legacy_values_Cons:
  "convert_legacy_values w (p # rest) acc =
     convert_legacy_values w rest
       (AList.update (fst (converted_entry w p)) (snd (converted_entry w p)) acc)"
  by (cases p) (simp add: converted_entry_def Let_def)

lemma update_absent: "k \<notin> fst ` set al \<Longrightarrow> AList.update k v al = al @ [(k, v)]"
  by (induction al) auto

lemma filter_update:
  "filter (\<lambda>p. Q (fst p)) (AList.update k v al) =
     (if Q k then AList.update k v (filter (\<lambda>p. Q (fst p)) al)
      else filter (\<lambda>p. Q (fst p)) al)"
  by (induction al) auto

lemma filter_convert_legacy_values:
  "filter (\<lambda>p. Q (fst p)) (convert_legacy_values w xs acc) =
     convert_legacy_values w (filter (\<lambda>p. Q (fst (converted_entry w p))) xs)
       (filter (\<lambda>p. Q (fst p)) acc)"
proof (induction xs arbitrary: acc)
  case Nil
  then show ?case by simp
next
  case (Cons p xs)
  show ?case
    by (simp only: convert_legacy_values_Cons Cons.IH filter.simps filter_update split: if_splits)
       (simp add: convert_legacy_values_Cons)
qed

lemma filter_convert_legacy_urls:
  "convert_legacy_urls w xs acc = Inr y \<Longrightarrow>
   convert_legacy_urls w (filter (\<lambda>p. to_new_website_series_url w (fst p) = Inr u) xs)
       (filter (\<lambda>p. fst p = u) acc) = Inr (filter (\<lambda>p. fst p = u) y)"
proof (induction xs arbitrary: acc)
  case Nil
  then show ?case by simp
next
  case (Cons p xs)
  obtain k v where p: "p = (k, v)" by (cases p)
  from Cons.prems p obtain k' where k': "to_new_website_series_url w k = Inr k'"
    and rest: "convert_legacy_urls w xs (AList.update k' v acc) = Inr y"
    by (auto split: sum.splits)
  from Cons.IH [OF rest] show ?case
    using k' p by (auto simp: filter_update [where Q = "\<lambda>k. k = u"])
qed

lemma set_update_subset: "set (AList.update k v al) \<subseteq> insert (k, v) (set al)"
  by (induction al) auto

lemma values_dict_invariant:
  "\<forall>p \<in> set acc. isinstance_dict (snd p) \<Longrightarrow>
   \<forall>p \<in> set (convert_legacy_values w xs acc). isinstance_dict (snd p)"
proof (induction xs arbitrary: acc)
  case Nil then show ?case by simp
next
  case (Cons p xs)
  have "\<forall>q \<in> set (AList.update (fst (converted_entry w p)) (snd (converted_entry w p)) acc).
          isinstance_dict (snd q)"
    using Cons.prems set_update_subset [of "fst (converted_entry w p)" "snd (converted_entry w p)" acc]
    by (auto simp: converted_entry_def)
  from Cons.IH [OF this] show ?case by (simp only: convert_legacy_values_Cons)
qed

lemma urls_invariant:
  assumes idem: "\<And>u v. to_new_website_series_url w u = Inr v \<Longrightarrow> to_new_website_series_url w v = Inr v"
  shows "convert_legacy_urls w xs acc = Inr y \<Longrightarrow>
   \<forall>p \<in> set acc. isinstance_dict (snd p) \<and> to_new_website_series_url w (fst p) = Inr (fst p) \<Longrightarrow>
   \<forall>p \<in> set xs. isinstance_dict (snd p) \<Longrightarrow>
   \<forall>p \<in> set y. isinstance_dict (snd p) \<and> to_new_website_series_url w (fst p) = Inr (fst p)"
proof (induction xs arbitrary: acc)
  case Nil then show ?case by simp
next
  case (Cons p xs)
  obtain k v where p: "p = (k, v)" by (cases p)
  from Cons.prems(1) p obtain k' where k': "to_new_website_series_url w k = Inr k'"
    and rest: "convert_legacy_urls w xs (AList.update k' v acc) = Inr y"
    by (auto split: sum.splits)
  have "\<forall>q \<in> set (AList.update k' v acc).
          isinstance_dict (snd q) \<and> to_new_website_series_url w (fst q) = Inr (fst q)"
    using Cons.prems(2,3) p idem [OF k'] set_update_subset [of k' v acc] by auto
  from Cons.IH [OF rest this] Cons.prems(3) show ?case by simp
qed

lemma urls_distinct:
  "convert_legacy_urls w xs acc = Inr y \<Longrightarrow> distinct (map fst acc) \<Longrightarrow> distinct (map fst y)"
proof (induction xs arbitrary: acc)
  case Nil then show ?case by simp
next
  case (Cons p xs)
  then show ?case by (cases p) (auto split: sum.splits simp: distinct_update)
qed

lemma values_noop:
  "distinct (map fst acc @ map fst ys) \<Longrightarrow> \<forall>p \<in> set ys. isinstance_dict (snd p) \<Longrightarrow>
   convert_legacy_values w ys acc = acc @ ys"
proof (induction ys arbitrary: acc)
  case Nil then show ?case by simp
next
  case (Cons p ys)
  obtain k v where p: "p = (k, v)" by (cases p)
  have "convert_legacy_values w (p # ys) acc = convert_legacy_values w ys (acc @ [p])"
    using Cons.prems p by (simp add: update_absent)
  also have "\<dots> = (acc @ [p]) @ ys"
    using Cons.prems by (intro Cons.IH) auto
  finally show ?case by simp
qed

lemma urls_noop:
  "distinct (map fst acc @ map fst ys) \<Longrightarrow>
   \<forall>p \<in> set ys. to_new_website_series_url w (fst p) = Inr (fst p) \<Longrightarrow>
   convert_legacy_urls w ys acc = Inr (acc @ ys)"
proof (induction ys arbitrary: acc)
  case Nil then show ?case by simp
next
  case (Cons p ys)
  obtain k v where p: "p = (k, v)" by (cases p)
  have "convert_legacy_urls w (p # ys) acc = convert_legacy_urls w ys (acc @ [p])"
    using Cons.prems p by (simp add: update_absent)
  also have "\<dots> = Inr ((acc @ [p]) @ ys)"
    using Cons.prems by (intro Cons.IH) auto
  finally show ?case by simp
qed

lemma current_format_noop:
  assumes "distinct (map fst y)"
    and "\<forall>p \<in> set y. isinstance_dict (snd p) \<and> to_new_website_series_url w (fst p) = Inr (fst p)"
  shows "convert_to_latest_format w y = Inr y"
  using assms values_noop [of "[]" y w] urls_noop [of "[]" y w]
  by (simp add: convert_to_latest_format_def)

lemma migrate_idem:
  assumes idem: "\<And>u v. to_new_website_series_url w u = Inr v \<Longrightarrow> to_new_website_series_url w v = Inr v"
    and y: "convert_to_latest_format w x = Inr y"
  shows "convert_to_latest_format w y = Inr y"
proof -
  let ?c = "convert_legacy_values w x []"
  have c: "\<forall>p \<in> set ?c. isinstance_dict (snd p)"
    by (rule values_dict_invariant) simp
  have b: "convert_legacy_urls w ?c [] = Inr y"
    using y by (simp add: convert_to_latest_format_def)
  have "distinct (map fst y)"
    using urls_distinct [OF b] by simp
  moreover have "\<forall>p \<in> set y. isinstance_dict (snd p) \<and> to_new_website_series_url w (fst p) = Inr (fst p)"
    using urls_invariant [OF idem b _ c] by simp
  ultimately show ?thesis by (rule current_format_noop)
qed

lemma convert_filter:
  assumes "convert_to_latest_format w x = Inr y"
  shows "convert_to_latest_format w (filter (\<lambda>p. latest_key w p = Inr u) x)
           = Inr (filter (\<lambda>p. fst p = u) y)"
proof -
  have b: "convert_legacy_urls w (convert_legacy_values w x []) [] = Inr y"
    using assms by (simp add: convert_to_latest_format_def)
  have "convert_legacy_values w (filter (\<lambda>p. latest_key w p = Inr u) x) [] =
          filter (\<lambda>p. to_new_website_series_url w (fst p) = Inr u) (convert_legacy_values w x [])"
    using filter_convert_legacy_values [of "\<lambda>a. to_new_website_series_url w a = Inr u" w x "[]"]
    by (simp add: latest_key_def)
  then show ?thesis
    using filter_convert_legacy_urls [OF b, of u]
    by (simp add: convert_to_latest_format_def)
qed


lemma values_keys:
  "fst ` set (convert_legacy_values w xs acc) =
     fst ` set acc \<union> (\<lambda>p. fst (converted_entry w p)) ` set xs"
proof (induction xs arbitrary: acc)
  case Nil then show ?case by simp
next
  case (Cons p xs)
  show ?case
    by (simp only: convert_legacy_values_Cons Cons.IH dom_update) auto
qed

lemma urls_keys:
  "convert_legacy_urls w xs acc = Inr y \<Longrightarrow>
   fst ` set y = fst ` set acc \<union> {u. \<exists>p \<in> set xs. to_new_website_series_url w (fst p) = Inr u}"
proof (induction xs arbitrary: acc)
  case Nil then show ?case by auto
next
  case (Cons p xs)
  obtain k v where p: "p = (k, v)" by (cases p)
  from Cons.prems p obtain k' where k': "to_new_website_series_url w k = Inr k'"
    and rest: "convert_legacy_urls w xs (AList.update k' v acc) = Inr y"
    by (auto split: sum.splits)
  show ?case
    using Cons.IH [OF rest] k' p by (auto simp: dom_update)
qed

lemma latest_keys:
  assumes "convert_to_latest_format w x = Inr y"
  shows "fst ` set y = {u. \<exists>p \<in> set x. latest_key w p = Inr u}"
proof -
  have b: "convert_legacy_urls w (convert_legacy_values w x []) [] = Inr y"
    using assms by (simp add: convert_to_latest_format_def)
  have "fst ` set y = {u. \<exists>a \<in> fst ` set (convert_legacy_values w x []).
                        to_new_website_series_url w a = Inr u}"
    using urls_keys [OF b] by auto
  then show ?thesis
    by (auto simp: values_keys latest_key_def)
qed


lemma urls_succeed:
  "\<forall>p \<in> set xs. \<exists>u. to_new_website_series_url w (fst p) = Inr u \<Longrightarrow>
   \<exists>y. convert_legacy_urls w xs acc = Inr y"
proof (induction xs arbitrary: acc)
  case Nil then show ?case by simp
next
  case (Cons p xs)
  then show ?case by (cases p) (auto split: sum.splits)
qed

lemma convert_succeeds:
  assumes "\<forall>p \<in> set x. \<exists>u. latest_key w p = Inr u"
  shows "\<exists>y. convert_to_latest_format w x = Inr y"
proof -
  have "\<forall>q \<in> set (convert_legacy_values w x []). \<exists>u. to_new_website_series_url w (fst q) = Inr u"
  proof
    fix q assume "q \<in> set (convert_legacy_values w x [])"
    then have "fst q \<in> fst ` set (convert_legacy_values w x [])" by simp
    then obtain p where "p \<in> set x" "fst q = fst (converted_entry w p)"
      by (auto simp: values_keys)
    with assms show "\<exists>u. to_new_website_series_url w (fst q) = Inr u"
      by (auto simp: latest_key_def)
  qed
  from urls_succeed [OF this] show ?thesis
    by (simp add: convert_to_latest_format_def)
qed




lemma convert_pair:
  assumes "latest_key w p1 = Inr u" and "latest_key w p2 = Inr u"
  shows "convert_to_latest_format w [p1, p2] = Inr [(u, snd (converted_entry w p2))]"
proof -
  have v: "convert_legacy_values w [p1, p2] [] =
        AList.update (fst (converted_entry w p2)) (snd (converted_entry w p2))
          [converted_entry w p1]"
    by (simp add: convert_legacy_values_Cons)
  show ?thesis
  proof (cases "fst (converted_entry w p1) = fst (converted_entry w p2)")
    case True
    then have "convert_legacy_values w [p1, p2] [] = [converted_entry w p2]"
      unfolding v by (cases "converted_entry w p1"; cases "converted_entry w p2") simp
    then show ?thesis
      using assms by (cases "converted_entry w p2") (simp add: convert_to_latest_format_def latest_key_def)
  next
    case False
    then have "convert_legacy_values w [p1, p2] [] = [converted_entry w p1, converted_entry w p2]"
      unfolding v by (cases "converted_entry w p1"; cases "converted_entry w p2") simp
    then show ?thesis
      using assms
      by (cases "converted_entry w p1"; cases "converted_entry w p2")
         (simp add: convert_to_latest_format_def latest_key_def)
  qed
qed

subsection \<open>The instance of the URL helpers\<close>

lemma example_to_new_idem:
  "to_new_website_series_url example_jncweb u = Inr v \<Longrightarrow>
   to_new_website_series_url example_jncweb v = Inr v"
  by (auto simp: example_jncweb_def startswith_def split: if_splits)

lemma example_legacy:
  "convert_to_latest_format example_jncweb
     [(''my-series'', JInt 3),
      (''https://j-novel.club/s/other'', JAddict [(''name'', JStr ''Other''), (''part'', JInt 7)])]
   = Inr [(''https://j-novel.club/series/my-series'',
            JAddict [(''name'', JStr ''My Series''), (''part'', JInt 3)]),
          (''https://j-novel.club/series/other'',
            JAddict [(''name'', JStr ''Other''), (''part'', JInt 7)])]"
  by (simp add: convert_to_latest_format_def example_jncweb_def startswith_def title_def
        replace_dash_def islower_def isupper_def toupper_def tolower_def
        ascii_lowercase_def ascii_uppercase_def)

subsection \<open>Idempotence\<close>

text \<open>
  Claim C3. Migrating twice gives what migrating once gives, an exception of the
  first migration included, and migrating data that is already in the current format
  (structured values, keys that \<^verbatim>\<open>to_new_website_series_url\<close> leaves alone) returns
  it unchanged. \<^verbatim>\<open>to_new_website_series_url\<close> is a parameter; the property asked of
  it is that it leaves its own results alone, that is, that it returns URLs of the
  current format and accepts them.
\<close>

theorem convert_to_latest_format_idempotent:
  assumes "\<And>u v. to_new_website_series_url w u = Inr v \<Longrightarrow> to_new_website_series_url w v = Inr v"
  shows "(case convert_to_latest_format w x of
            Inl e \<Rightarrow> Inl e
          | Inr y \<Rightarrow> convert_to_latest_format w y) = convert_to_latest_format w x
       \<and> (distinct (map fst x) \<and>
            (\<forall>p \<in> set x. isinstance_dict (snd p) \<and> to_new_website_series_url w (fst p) = Inr (fst p))
          \<longrightarrow> convert_to_latest_format w x = Inr x)"
proof
  show "(case convert_to_latest_format w x of
            Inl e \<Rightarrow> Inl e
          | Inr y \<Rightarrow> convert_to_latest_format w y) = convert_to_latest_format w x"
  proof (cases "convert_to_latest_format w x")
    case (Inl e)
    then show ?thesis by simp
  next
    case (Inr y)
    with migrate_idem [OF assms Inr] show ?thesis by simp
  qed
next
  show "distinct (map fst x) \<and>
            (\<forall>p \<in> set x. isinstance_dict (snd p) \<and> to_new_website_series_url w (fst p) = Inr (fst p))
          \<longrightarrow> convert_to_latest_format w x = Inr x"
    using current_format_noop [of x w] by blast
qed

theorem convert_to_latest_format_idempotent_witness:
  "convert_to_latest_format example_jncweb
     [(''https://j-novel.club/series/my-series'',
        JAddict [(''name'', JStr ''My Series''), (''part'', JInt 3)]),
      (''https://j-novel.club/series/other'',
        JAddict [(''name'', JStr ''Other''), (''part'', JInt 7)])]
   = Inr [(''https://j-novel.club/series/my-series'',
            JAddict [(''name'', JStr ''My Series''), (''part'', JInt 3)]),
          (''https://j-novel.club/series/other'',
            JAddict [(''name'', JStr ''Other''), (''part'', JInt 7)])]"
  using convert_to_latest_format_idempotent [of example_jncweb
     "[(''my-series'', JInt 3),
      (''https://j-novel.club/s/other'', JAddict [(''name'', JStr ''Other''), (''part'', JInt 7)])]",
      OF example_to_new_idem]
  by (simp only: example_legacy sum.case)

subsection \<open>The image of one stored pair\<close>




subsection \<open>Keys that collide\<close>

text \<open>
  Claim C10, as it is written, fails when three keys arrive at one URL: the slug
  \<^verbatim>\<open>s\<close> with a bare part number, the legacy address of the same series and its
  current address. The first loop stores the third value under the key that the
  first pair created, in front of the second pair; the second loop then visits the
  second pair last. The store ends with the value of the second key, not of the
  third, although both arrive at the same URL and the third is the later one.
\<close>

theorem migration_later_key_counterexample:
  "latest_key example_jncweb
      (''https://j-novel.club/s/s'', JAddict [(''name'', JStr ''X'')])
     = Inr ''https://j-novel.club/series/s''
   \<and> latest_key example_jncweb
      (''https://j-novel.club/series/s'', JAddict [(''name'', JStr ''Y'')])
     = Inr ''https://j-novel.club/series/s''
   \<and> convert_to_latest_format example_jncweb
      [(''s'', JInt 5),
       (''https://j-novel.club/s/s'', JAddict [(''name'', JStr ''X'')]),
       (''https://j-novel.club/series/s'', JAddict [(''name'', JStr ''Y'')])]
     = Inr [(''https://j-novel.club/series/s'', JAddict [(''name'', JStr ''X'')])]"
  by (simp add: convert_to_latest_format_def latest_key_def converted_entry_def Let_def
        example_jncweb_def startswith_def title_def replace_dash_def islower_def isupper_def
        toupper_def tolower_def ascii_lowercase_def ascii_uppercase_def)

lemma urls_same_target:
  "\<forall>p \<in> set l. to_new_website_series_url w (fst p) = Inr u \<Longrightarrow>
   convert_legacy_urls w l [(u, z)] = Inr [(u, snd (last ((u, z) # l)))]"
proof (induction l arbitrary: z)
  case Nil
  then show ?case by simp
next
  case (Cons p l)
  obtain k v where p: "p = (k, v)" by (cases p)
  from Cons.prems p have k: "to_new_website_series_url w k = Inr u" by simp
  from Cons.prems have "\<forall>q \<in> set l. to_new_website_series_url w (fst q) = Inr u" by simp
  from Cons.IH [OF this, of v] k p show ?case by simp
qed

lemma urls_same_target_empty:
  assumes "\<forall>p \<in> set l. to_new_website_series_url w (fst p) = Inr u" and "l \<noteq> []"
  shows "convert_legacy_urls w l [] = Inr [(u, snd (last l))]"
proof -
  from assms(2) obtain p l' where l: "l = p # l'" by (cases l) auto
  obtain k v where p: "p = (k, v)" by (cases p)
  from assms(1) l p have k: "to_new_website_series_url w k = Inr u"
    and r: "\<forall>q \<in> set l'. to_new_website_series_url w (fst q) = Inr u"
    by simp_all
  from urls_same_target [OF r, of v] k show ?thesis
    unfolding l p by simp
qed

lemma latest_entry:
  assumes y: "convert_to_latest_format w x = Inr y"
    and ne: "filter (\<lambda>p. to_new_website_series_url w (fst p) = Inr u)
               (convert_legacy_values w x []) \<noteq> []"
  shows "filter (\<lambda>p. fst p = u) y =
           [(u, snd (last (filter (\<lambda>p. to_new_website_series_url w (fst p) = Inr u)
                             (convert_legacy_values w x []))))]"
proof -
  let ?l = "filter (\<lambda>p. to_new_website_series_url w (fst p) = Inr u) (convert_legacy_values w x [])"
  have b: "convert_legacy_urls w (convert_legacy_values w x []) [] = Inr y"
    using y by (simp add: convert_to_latest_format_def)
  from filter_convert_legacy_urls [OF b, of u]
  have "convert_legacy_urls w ?l [] = Inr (filter (\<lambda>p. fst p = u) y)" by simp
  moreover have "convert_legacy_urls w ?l [] = Inr [(u, snd (last ?l))]"
    by (rule urls_same_target_empty [OF _ ne]) simp
  ultimately show ?thesis by simp
qed

text \<open>
  Claim C10, amended. Let \<^verbatim>\<open>to_new_website_series_url\<close> accept every key, let the
  slugs (the keys of the values that are not dictionaries) be ASCII, so that \<open>title\<close>
  is Python's, and let two or more keys of the input arrive at the URL \<open>u\<close>. The migration raises nothing, the
  migrated store has one entry for \<open>u\<close>, and it has fewer entries than the input. The
  entry holds the value of the last pair, in the iteration order of the mapping
  that the first loop builds, whose key is rewritten to \<open>u\<close>; when exactly two keys of
  the input arrive at \<open>u\<close>, \<open>k1\<close> before \<open>k2\<close> in iteration order, that is the value
  that belongs to \<open>k2\<close>.
\<close>

theorem migration_merges_colliding_keys:
  assumes ok: "\<forall>p \<in> set x. \<exists>u'. latest_key w p = Inr u'"
    and ascii: "\<forall>p \<in> set x. isinstance_dict (snd p) \<or> isascii (fst p)"
    and dist: "distinct (map fst x)"
    and m1: "(k1, v1) \<in> set x" and m2: "(k2, v2) \<in> set x" and ne: "k1 \<noteq> k2"
    and u1: "latest_key w (k1, v1) = Inr u" and u2: "latest_key w (k2, v2) = Inr u"
  shows "\<exists>y. convert_to_latest_format w x = Inr y
           \<and> filter (\<lambda>p. fst p = u) y =
               [(u, snd (last (filter (\<lambda>p. to_new_website_series_url w (fst p) = Inr u)
                                 (convert_legacy_values w x []))))]
           \<and> (filter (\<lambda>p. latest_key w p = Inr u) x = [(k1, v1), (k2, v2)] \<longrightarrow>
                filter (\<lambda>p. fst p = u) y = [(u, snd (converted_entry w (k2, v2)))])
           \<and> length y < length x"
proof -
  from convert_succeeds [OF ok] obtain y where y: "convert_to_latest_format w x = Inr y" by blast
  have "fst (converted_entry w (k2, v2)) \<in> fst ` set (convert_legacy_values w x [])"
    using m2 by (auto simp: values_keys)
  then obtain q where q: "q \<in> set (convert_legacy_values w x [])"
    and fq: "fst q = fst (converted_entry w (k2, v2))" by auto
  from u2 fq have "to_new_website_series_url w (fst q) = Inr u" by (simp add: latest_key_def)
  with q have nonempty: "filter (\<lambda>p. to_new_website_series_url w (fst p) = Inr u)
               (convert_legacy_values w x []) \<noteq> []"
    by (auto simp: filter_empty_conv)
  note general = latest_entry [OF y nonempty]
  have two: "filter (\<lambda>p. fst p = u) y = [(u, snd (converted_entry w (k2, v2)))]"
    if "filter (\<lambda>p. latest_key w p = Inr u) x = [(k1, v1), (k2, v2)]"
    using convert_filter [OF y, of u] convert_pair [OF u1 u2] that by simp
  have dx: "distinct x" using dist by (simp add: distinct_map)
  have dy: "distinct (map fst y)"
    using y urls_distinct [of w "convert_legacy_values w x []" "[]" y]
    by (simp add: convert_to_latest_format_def)
  let ?f = "\<lambda>p. projr (latest_key w p)"
  have keys: "fst ` set y = ?f ` set x"
  proof -
    have "{u. \<exists>p \<in> set x. latest_key w p = Inr u} = ?f ` set x"
      using ok by (force simp: image_iff)
    then show ?thesis using latest_keys [OF y] by simp
  qed
  have "\<not> inj_on ?f (set x)"
  proof
    assume "inj_on ?f (set x)"
    moreover have "?f (k1, v1) = ?f (k2, v2)" by (simp add: u1 u2)
    ultimately have "(k1, v1) = (k2, v2)" using m1 m2 by (rule inj_onD)
    with ne show False by simp
  qed
  then have "card (?f ` set x) \<noteq> card (set x)"
    using eq_card_imp_inj_on [of "set x" ?f] by auto
  moreover have "card (?f ` set x) \<le> card (set x)"
    by (rule card_image_le) simp
  ultimately have "card (fst ` set y) < card (set x)"
    using keys by simp
  then have "length y < length x"
    using dy dx distinct_card [of "map fst y"] distinct_card [of x] by simp
  with y general two show ?thesis by blast
qed

lemmas eval_defs =
  convert_to_latest_format_def latest_key_def converted_entry_def Let_def
  example_jncweb_def startswith_def title_def replace_dash_def islower_def isupper_def
  toupper_def tolower_def ascii_lowercase_def ascii_uppercase_def

theorem migration_merges_colliding_keys_witness:
  "\<exists>y. convert_to_latest_format example_jncweb
          [(''s'', JInt 5),
           (''https://j-novel.club/s/s'', JAddict [(''name'', JStr ''X'')]),
           (''https://j-novel.club/series/s'', JAddict [(''name'', JStr ''Y'')])] = Inr y
     \<and> filter (\<lambda>p. fst p = ''https://j-novel.club/series/s'') y
         = [(''https://j-novel.club/series/s'', JAddict [(''name'', JStr ''X'')])]
     \<and> length y < 3"
proof -
  let ?x = "[(''s'', JInt 5),
           (''https://j-novel.club/s/s'', JAddict [(''name'', JStr ''X'')]),
           (''https://j-novel.club/series/s'', JAddict [(''name'', JStr ''Y'')])]"
  have ok: "\<forall>p \<in> set ?x. \<exists>u'. latest_key example_jncweb p = Inr u'"
    by (simp add: eval_defs)
  have ascii: "\<forall>p \<in> set ?x. isinstance_dict (snd p) \<or> isascii (fst p)"
    by (simp add: isascii_def)
  have dist: "distinct (map fst ?x)" by simp
  have u1: "latest_key example_jncweb (''https://j-novel.club/s/s'', JAddict [(''name'', JStr ''X'')])
              = Inr ''https://j-novel.club/series/s''"
    and u2: "latest_key example_jncweb (''https://j-novel.club/series/s'', JAddict [(''name'', JStr ''Y'')])
              = Inr ''https://j-novel.club/series/s''"
    by (simp_all add: eval_defs)
  have inter: "filter (\<lambda>p. to_new_website_series_url example_jncweb (fst p) = Inr ''https://j-novel.club/series/s'')
                 (convert_legacy_values example_jncweb ?x [])
               = [(''https://j-novel.club/series/s'', JAddict [(''name'', JStr ''Y'')]),
                  (''https://j-novel.club/s/s'', JAddict [(''name'', JStr ''X'')])]"
    by (simp add: eval_defs)
  have m1: "(''https://j-novel.club/s/s'', JAddict [(''name'', JStr ''X'')]) \<in> set ?x"
    and m2: "(''https://j-novel.club/series/s'', JAddict [(''name'', JStr ''Y'')]) \<in> set ?x"
    and ne: "''https://j-novel.club/s/s'' \<noteq> ''https://j-novel.club/series/s''"
    by simp_all
  from migration_merges_colliding_keys [OF ok ascii dist m1 m2 ne u1 u2]
  obtain y where y: "convert_to_latest_format example_jncweb ?x = Inr y"
    and e: "filter (\<lambda>p. fst p = ''https://j-novel.club/series/s'') y =
               [(''https://j-novel.club/series/s'',
                 snd (last (filter (\<lambda>p. to_new_website_series_url example_jncweb (fst p)
                                          = Inr ''https://j-novel.club/series/s'')
                                 (convert_legacy_values example_jncweb ?x []))))]"
    and l: "length y < length ?x"
    by blast
  from e have "filter (\<lambda>p. fst p = ''https://j-novel.club/series/s'') y
         = [(''https://j-novel.club/series/s'', JAddict [(''name'', JStr ''X'')])]"
    unfolding inter by simp
  with y l show ?thesis by simp
qed

section \<open>Properties of forward synchronisation\<close>

subsection \<open>One task\<close>

lemma track_series_cases:
  assumes "track_series g w task T s0 = (Inr T', cs)"
  shows "\<exists>vols. fetch_volumes_meta g (series_id s0) = Inr vols \<and>
      (if vols = [] then
         cs = [(task, FetchVolumesMeta (series_id s0))] \<and>
         T' = AList.update (url_from_series_slug w (raw_slug s0))
                (JDict [(''part_date'', JStr ''1111-11-11T11:11:11.111Z''), (''part'', JInt 0),
                        (''name'', JStr (raw_title s0))]) T
       else
         (\<exists>ps. fetch_parts_meta g (volume_id (last vols)) = Inr ps \<and>
            cs = [(task, FetchVolumesMeta (series_id s0)),
                  (task, FetchPartsMeta (volume_id (last vols)))] \<and>
            (if ps = [] then
               T' = AList.update (url_from_series_slug w (raw_slug s0))
                      (JDict [(''part_date'', JStr ''1111-11-11T11:11:11.111Z''), (''part'', JInt 0),
                              (''name'', JStr (raw_title s0))]) T
             else
               T' = AList.update (url_from_series_slug w (raw_slug s0))
                      (JDict [(''part_date'', JStr (launch (last ps))),
                              (''part'', to_relative_spec_from_part g
                                  (s0\<lparr>volumes := butlast vols @ [(last vols)\<lparr>parts := ps\<rparr>]\<rparr>)
                                  (last ps)),
                              (''name'', JStr (raw_title s0))]) T)))"
  using assms
  by (auto simp: track_series_def fill_meta_for_track_def last_part_of_def Let_def
           split: sum.splits if_splits option.splits)

lemma track_series_update:
  assumes "track_series g w task T s = (Inr T', cs)"
  shows "\<exists>entry. T' = AList.update (url_from_series_slug w (raw_slug s)) entry T"
proof -
  from track_series_cases [OF assms] obtain vols where
    "if vols = [] then
         cs = [(task, FetchVolumesMeta (series_id s))] \<and>
         T' = AList.update (url_from_series_slug w (raw_slug s))
                (JDict [(''part_date'', JStr ''1111-11-11T11:11:11.111Z''), (''part'', JInt 0),
                        (''name'', JStr (raw_title s))]) T
       else
         (\<exists>ps. fetch_parts_meta g (volume_id (last vols)) = Inr ps \<and>
            cs = [(task, FetchVolumesMeta (series_id s)),
                  (task, FetchPartsMeta (volume_id (last vols)))] \<and>
            (if ps = [] then
               T' = AList.update (url_from_series_slug w (raw_slug s))
                      (JDict [(''part_date'', JStr ''1111-11-11T11:11:11.111Z''), (''part'', JInt 0),
                              (''name'', JStr (raw_title s))]) T
             else
               T' = AList.update (url_from_series_slug w (raw_slug s))
                      (JDict [(''part_date'', JStr (launch (last ps))),
                              (''part'', to_relative_spec_from_part g
                                  (s\<lparr>volumes := butlast vols @ [(last vols)\<lparr>parts := ps\<rparr>]\<rparr>)
                                  (last ps)),
                              (''name'', JStr (raw_title s))]) T))"
    by blast
  then show ?thesis
    by (cases "vols = []") (auto split: if_splits)
qed

lemma track_series_keys:
  assumes "track_series g w task T s = (Inr T', cs)"
  shows "fst ` set T' = insert (url_from_series_slug w (raw_slug s)) (fst ` set T)"
proof -
  from track_series_update [OF assms] obtain entry
    where "T' = AList.update (url_from_series_slug w (raw_slug s)) entry T" by blast
  then show ?thesis by (simp add: dom_update)
qed

lemma fill_meta_for_track_calls:
  "fill_meta_for_track g task s = (r, cs) \<Longrightarrow> \<forall>c \<in> set cs. fst c = task"
  by (auto simp: fill_meta_for_track_def Let_def split: sum.splits if_splits)

lemma track_series_calls:
  assumes "track_series g w task T s = (r, cs)"
  shows "\<forall>c \<in> set cs. fst c = task"
proof -
  obtain r' cs' where f: "fill_meta_for_track g task s = (r', cs')"
    by (cases "fill_meta_for_track g task s")
  with assms have "cs = cs'"
    by (auto simp: track_series_def Let_def split: sum.splits option.splits)
  with fill_meta_for_track_calls [OF f] show ?thesis by simp
qed

lemma do_track_cases:
  obtains
    (resolve_failed) e where "resolve_series g r = Inl e"
      "do_track g w r st =
         st\<lparr>calls := calls st @ [(r, ResolveSeries)], failures := failures st @ [e]\<rparr>"
  | (track_failed) s e cs where "resolve_series g r = Inr s"
      "track_series g w r (store st) s = (Inl e, cs)"
      "do_track g w r st =
         st\<lparr>calls := calls st @ (r, ResolveSeries) # cs, failures := failures st @ [e]\<rparr>"
  | (tracked) s T' cs where "resolve_series g r = Inr s"
      "track_series g w r (store st) s = (Inr T', cs)"
      "do_track g w r st =
         st\<lparr>store := T', new_synced := new_synced st @ [url_from_series_slug w (raw_slug s)],
            calls := calls st @ (r, ResolveSeries) # cs\<rparr>"
proof (cases "resolve_series g r")
  case (Inl e)
  then show ?thesis by (intro resolve_failed [of e]) (simp_all add: do_track_def)
next
  case (Inr s)
  obtain res cs where t: "track_series g w r (store st) s = (res, cs)"
    by (cases "track_series g w r (store st) s")
  show ?thesis
  proof (cases res)
    case (Inl e)
    with Inr t show ?thesis by (intro track_failed [of s e cs]) (simp_all add: do_track_def)
  next
    case (Inr T')
    with \<open>resolve_series g r = Inr s\<close> t show ?thesis
      by (intro tracked [of s T' cs]) (simp_all add: do_track_def)
  qed
qed

lemma do_track_failures:
  "\<exists>es. failures (do_track g w r st) = failures st @ es"
  by (cases rule: do_track_cases [of g r w st]) simp_all

lemma do_track_del_synced [simp]:
  "del_synced (do_track g w r st) = del_synced st"
  by (cases rule: do_track_cases [of g r w st]) simp_all

lemma do_track_keys_mono:
  "fst ` set (store st) \<subseteq> fst ` set (store (do_track g w r st))"
proof (cases rule: do_track_cases [of g r w st])
  case (tracked s T' cs)
  with track_series_keys [OF tracked(2)] show ?thesis by auto
qed simp_all

lemma do_track_calls:
  "set (calls (do_track g w r st)) \<subseteq> set (calls st) \<union> {c. fst c = r}"
proof (cases rule: do_track_cases [of g r w st])
  case (resolve_failed e)
  then show ?thesis by auto
next
  case (track_failed s e cs)
  with track_series_calls [OF track_failed(2)] show ?thesis by auto
next
  case (tracked s T' cs)
  with track_series_calls [OF tracked(2)] show ?thesis by auto
qed

lemma do_track_ok:
  assumes "failures (do_track g w r st) = []"
  shows "\<exists>s. resolve_series g r = Inr s \<and>
           fst ` set (store (do_track g w r st)) =
             insert (url_from_series_slug w (raw_slug s)) (fst ` set (store st)) \<and>
           new_synced (do_track g w r st) =
             new_synced st @ [url_from_series_slug w (raw_slug s)] \<and>
           failures st = []"
proof (cases rule: do_track_cases [of g r w st])
  case (resolve_failed e)
  with assms show ?thesis by simp
next
  case (track_failed s e cs)
  with assms show ?thesis by simp
next
  case (tracked s T' cs)
  with assms track_series_keys [OF tracked(2)] show ?thesis by simp
qed

lemma run_tasks_Cons [simp]: "run_tasks run (t # ts) st = run_tasks run ts (run t st)"
  and run_tasks_Nil [simp]: "run_tasks run [] st = st"
  by (simp_all add: run_tasks_def)

lemma run_do_track_failures:
  "\<exists>es. failures (run_tasks (do_track g w) ts st) = failures st @ es"
proof (induction ts arbitrary: st)
  case Nil then show ?case by simp
next
  case (Cons t ts)
  from Cons.IH [of "do_track g w t st"] do_track_failures [of g w t st]
  show ?case by auto
qed

lemma run_do_track_del_synced [simp]:
  "del_synced (run_tasks (do_track g w) ts st) = del_synced st"
  by (induction ts arbitrary: st) simp_all

lemma run_do_track_keys_mono:
  "fst ` set (store st) \<subseteq> fst ` set (store (run_tasks (do_track g w) ts st))"
proof (induction ts arbitrary: st)
  case Nil then show ?case by simp
next
  case (Cons t ts)
  from Cons.IH [of "do_track g w t st"] do_track_keys_mono [of st g w t]
  show ?case by auto
qed

lemma run_do_track_calls:
  "set (calls (run_tasks (do_track g w) ts st)) \<subseteq> set (calls st) \<union> {c. fst c \<in> set ts}"
proof (induction ts arbitrary: st)
  case Nil then show ?case by simp
next
  case (Cons t ts)
  from Cons.IH [of "do_track g w t st"] do_track_calls [of g w t st]
  show ?case by auto
qed

lemma run_do_track_ok:
  assumes "failures (run_tasks (do_track g w) ts st) = []"
  shows "(\<forall>r \<in> set ts. \<exists>s. resolve_series g r = Inr s) \<and>
         fst ` set (store (run_tasks (do_track g w) ts st)) =
           fst ` set (store st) \<union>
           (\<lambda>r. url_from_series_slug w (raw_slug (projr (resolve_series g r)))) ` set ts \<and>
         set (new_synced (run_tasks (do_track g w) ts st)) =
           set (new_synced st) \<union>
           (\<lambda>r. url_from_series_slug w (raw_slug (projr (resolve_series g r)))) ` set ts"
  using assms
proof (induction ts arbitrary: st)
  case Nil then show ?case by simp
next
  case (Cons t ts)
  let ?st = "do_track g w t st"
  let ?u = "\<lambda>r. url_from_series_slug w (raw_slug (projr (resolve_series g r)))"
  from Cons.prems have rest: "failures (run_tasks (do_track g w) ts ?st) = []" by simp
  with run_do_track_failures [of g w ts ?st] have "failures ?st = []" by auto
  from do_track_ok [OF this] obtain s where s: "resolve_series g t = Inr s"
    and k: "fst ` set (store ?st) = insert (url_from_series_slug w (raw_slug s)) (fst ` set (store st))"
    and n: "new_synced ?st = new_synced st @ [url_from_series_slug w (raw_slug s)]"
    by blast
  have ut: "?u t = url_from_series_slug w (raw_slug s)" by (simp add: s)
  from Cons.IH [OF rest]
  have 1: "\<forall>r \<in> set ts. \<exists>s. resolve_series g r = Inr s"
    and 2: "fst ` set (store (run_tasks (do_track g w) ts ?st)) = fst ` set (store ?st) \<union> ?u ` set ts"
    and 3: "set (new_synced (run_tasks (do_track g w) ts ?st)) = set (new_synced ?st) \<union> ?u ` set ts"
    by blast+
  have a: "\<forall>r \<in> set (t # ts). \<exists>s. resolve_series g r = Inr s"
    using 1 s by simp
  have b: "fst ` set (store (run_tasks (do_track g w) (t # ts) st)) =
           fst ` set (store st) \<union> ?u ` set (t # ts)"
    unfolding run_tasks_Cons 2 k set_simps image_insert ut by blast
  have c: "set (new_synced (run_tasks (do_track g w) (t # ts) st)) =
           set (new_synced st) \<union> ?u ` set (t # ts)"
    unfolding run_tasks_Cons 3 n set_simps image_insert ut set_append by blast
  from a b c show ?case by blast
qed

lemma delete_keys_set: "fst ` set (AList.delete k al) = fst ` set al - {k}"
  by (induction al) auto

lemma delete_unfollowed_failures:
  "\<exists>es. failures (delete_unfollowed fi items st) = failures st @ es"
proof (induction items arbitrary: st)
  case Nil
  then show ?case by simp
next
  case (Cons p items)
  obtain k v where p: "p = (k, v)" by (cases p)
  show ?case
  proof (cases "k \<in> set fi")
    case True
    with Cons.IH [of st] show ?thesis by (simp add: p)
  next
    case False
    show ?thesis
    proof (cases "getattr_name v")
      case (Inl e)
      with False show ?thesis by (simp add: p)
    next
      case (Inr n)
      with False Cons.IH [of "st\<lparr>store := AList.delete k (store st),
                                   del_synced := del_synced st @ [k]\<rparr>"]
      show ?thesis by (simp add: p)
    qed
  qed
qed

lemma delete_unfollowed_ok:
  assumes "failures (delete_unfollowed fi items st) = []"
  shows "fst ` set (store (delete_unfollowed fi items st)) =
           fst ` set (store st) - {k \<in> fst ` set items. k \<notin> set fi}
       \<and> set (del_synced (delete_unfollowed fi items st)) =
           set (del_synced st) \<union> {k \<in> fst ` set items. k \<notin> set fi}"
  using assms
proof (induction items arbitrary: st)
  case Nil
  then show ?case by simp
next
  case (Cons p items)
  obtain k v where p: "p = (k, v)" by (cases p)
  show ?case
  proof (cases "k \<in> set fi")
    case True
    then have eq: "delete_unfollowed fi (p # items) st = delete_unfollowed fi items st"
      by (simp add: p)
    have "{k' \<in> fst ` set (p # items). k' \<notin> set fi} = {k' \<in> fst ` set items. k' \<notin> set fi}"
      using True by (auto simp: p)
    moreover from Cons.prems eq have "failures (delete_unfollowed fi items st) = []" by simp
    ultimately show ?thesis using Cons.IH [of st] eq by simp
  next
    case False
    let ?st = "st\<lparr>store := AList.delete k (store st), del_synced := del_synced st @ [k]\<rparr>"
    show ?thesis
    proof (cases "getattr_name v")
      case (Inl e)
      with False have "failures (delete_unfollowed fi (p # items) st) = failures st @ [e]"
        by (simp add: p)
      with Cons.prems show ?thesis by simp
    next
      case (Inr n)
      with False have eq: "delete_unfollowed fi (p # items) st = delete_unfollowed fi items ?st"
        by (simp add: p)
      have c: "{k' \<in> fst ` set (p # items). k' \<notin> set fi} =
                   insert k {k' \<in> fst ` set items. k' \<notin> set fi}"
        using False by (auto simp: p)
      have d: "fst ` set (store ?st) = fst ` set (store st) - {k}"
        by (simp add: delete_keys_set)
      from Cons.prems eq have "failures (delete_unfollowed fi items ?st) = []" by simp
      from Cons.IH [OF this]
      have 1: "fst ` set (store (delete_unfollowed fi items ?st)) =
                 fst ` set (store ?st) - {k \<in> fst ` set items. k \<notin> set fi}"
        and 2: "set (del_synced (delete_unfollowed fi items ?st)) =
                 set (del_synced ?st) \<union> {k \<in> fst ` set items. k \<notin> set fi}"
        by blast+
      have "fst ` set (store (delete_unfollowed fi (p # items) st)) =
              fst ` set (store st) - {k' \<in> fst ` set (p # items). k' \<notin> set fi}"
        unfolding eq 1 d c by blast
      moreover have "set (del_synced (delete_unfollowed fi (p # items) st)) =
              set (del_synced st) \<union> {k' \<in> fst ` set (p # items). k' \<notin> set fi}"
        unfolding eq 2 c by simp
      ultimately show ?thesis by blast
    qed
  qed
qed

lemma delete_unfollowed_new_synced [simp]:
  "new_synced (delete_unfollowed fi items st) = new_synced st"
proof (induction items arbitrary: st)
  case Nil
  then show ?case by simp
next
  case (Cons p items)
  then show ?case by (cases p) (simp split: sum.splits)
qed

lemma delete_unfollowed_calls [simp]:
  "calls (delete_unfollowed fi items st) = calls st"
proof (induction items arbitrary: st)
  case Nil
  then show ?case by simp
next
  case (Cons p items)
  then show ?case by (cases p) (simp split: sum.splits)
qed

lemma outcome_Inr:
  "outcome st = Inr (added, removed) \<longleftrightarrow>
     failures st = [] \<and> added = new_synced st \<and> removed = del_synced st"
  by (auto simp: outcome_def)

lemma sync_series_forward_unfold:
  "sync_series_forward g w sched follows T is_delete =
     (let st1 = run_tasks (do_track g w)
                  (sched (filter (\<lambda>f. \<not> dict_contains (url f) T) follows))
                  \<lparr>store = T, new_synced = [], del_synced = [], calls = [], failures = []\<rparr>
      in if failures st1 \<noteq> [] then st1
         else if is_delete then delete_unfollowed (map url follows) (store st1) st1
         else st1)"
  by (simp add: sync_series_forward_def Let_def)

subsection \<open>Evaluation on the instance\<close>

lemma identity_schedule: "mset ((\<lambda>ts. ts) ts) = mset ts"
  by simp

lemmas example_defs =
  example_gateway_def example_jncweb_def example_resource_def startswith_def

lemma example_do_track:
  "do_track example_gateway example_jncweb (example_resource ''a'')
     \<lparr>store = [(''https://j-novel.club/series/b'', JAddict [(''name'', JStr ''B'')])],
      new_synced = [], del_synced = [], calls = [], failures = []\<rparr>
   = \<lparr>store = [(''https://j-novel.club/series/b'', JAddict [(''name'', JStr ''B'')]),
               (''https://j-novel.club/series/a'',
                JDict [(''part_date'', JStr ''2021-03-04T05:06:07.000Z''), (''part'', JInt 1),
                       (''name'', JStr ''A'')])],
      new_synced = [''https://j-novel.club/series/a''], del_synced = [],
      calls = [(example_resource ''a'', ResolveSeries),
               (example_resource ''a'', FetchVolumesMeta ''id-a''),
               (example_resource ''a'', FetchPartsMeta ''v1-id-a'')],
      failures = []\<rparr>"
  by (simp add: do_track_def track_series_def fill_meta_for_track_def last_part_of_def Let_def
        example_defs title_def islower_def isupper_def
        toupper_def tolower_def ascii_lowercase_def ascii_uppercase_def)

lemma example_forward:
  "sync_series_forward example_gateway example_jncweb (\<lambda>ts. ts) [example_resource ''a'']
     [(''https://j-novel.club/series/b'', JAddict [(''name'', JStr ''B'')])] True
   = \<lparr>store = [(''https://j-novel.club/series/a'',
                JDict [(''part_date'', JStr ''2021-03-04T05:06:07.000Z''), (''part'', JInt 1),
                       (''name'', JStr ''A'')])],
      new_synced = [''https://j-novel.club/series/a''],
      del_synced = [''https://j-novel.club/series/b''],
      calls = [(example_resource ''a'', ResolveSeries),
               (example_resource ''a'', FetchVolumesMeta ''id-a''),
               (example_resource ''a'', FetchPartsMeta ''v1-id-a'')],
      failures = []\<rparr>"
proof -
  have p: "filter (\<lambda>f. \<not> dict_contains (url f)
              [(''https://j-novel.club/series/b'', JAddict [(''name'', JStr ''B'')])])
            [example_resource ''a''] = [example_resource ''a'']"
    by (simp add: dict_contains_def dict_keys_def example_resource_def)
  have u: "map url [example_resource ''a''] = [''https://j-novel.club/series/a'']"
    by (simp add: example_resource_def)
  show ?thesis
    unfolding sync_series_forward_unfold p u
    by (simp add: example_do_track Let_def)
qed

subsection \<open>What a newly tracked series records\<close>

text \<open>
  Claim C7, as it is written, decides between the two records on whether the series
  has published parts. \<^verbatim>\<open>fill_meta_for_track\<close> fetches the parts of the last volume
  only, and \<^verbatim>\<open>track_series\<close> looks at that volume only: for a series whose first
  volume has a part and whose last volume has none yet, the entry is part \<open>0\<close> with
  the date \<^verbatim>\<open>1111-11-11T11:11:11.111Z\<close>, although the series has a published part.
\<close>

theorem do_track_sentinel_counterexample:
  "fetch_volumes_meta example_gateway_empty_last_volume ''id-a''
     = Inr [\<lparr>volume_id = ''v1'', parts = []\<rparr>, \<lparr>volume_id = ''v2'', parts = []\<rparr>]
   \<and> fetch_parts_meta example_gateway_empty_last_volume ''v1''
     = Inr [\<lparr>part_id = ''p1'', launch = ''2021-03-04T05:06:07.000Z''\<rparr>]
   \<and> do_track example_gateway_empty_last_volume example_jncweb (example_resource ''a'')
       \<lparr>store = [], new_synced = [], del_synced = [], calls = [], failures = []\<rparr>
     = \<lparr>store = [(''https://j-novel.club/series/a'',
                  JDict [(''part_date'', JStr ''1111-11-11T11:11:11.111Z''), (''part'', JInt 0),
                         (''name'', JStr ''A'')])],
        new_synced = [''https://j-novel.club/series/a''], del_synced = [],
        calls = [(example_resource ''a'', ResolveSeries),
                 (example_resource ''a'', FetchVolumesMeta ''id-a''),
                 (example_resource ''a'', FetchPartsMeta ''v2'')],
        failures = []\<rparr>"
  by (simp add: do_track_def track_series_def fill_meta_for_track_def last_part_of_def Let_def
        example_gateway_empty_last_volume_def
        example_defs title_def islower_def isupper_def
        toupper_def tolower_def ascii_lowercase_def ascii_uppercase_def)

text \<open>
  Claim C7, amended. When the task of forward synchronisation for a followed series
  succeeds, the entry stored under the URL of the resolved series holds the title of
  the series and: part \<open>0\<close> with the date \<^verbatim>\<open>1111-11-11T11:11:11.111Z\<close> when the series
  has no volume or its last volume has no part, whatever the earlier volumes hold;
  otherwise the relative number and the launch date of the last part of the last
  volume. The calls made are the resolution, the list of volumes and, when there is
  a volume, the parts of the last volume only.
\<close>

theorem do_track_records_last_part:
  assumes "failures (do_track g w r st) = failures st"
  shows "\<exists>s vols. resolve_series g r = Inr s \<and> fetch_volumes_meta g (series_id s) = Inr vols \<and>
     (if vols = [] then
        calls (do_track g w r st) =
          calls st @ [(r, ResolveSeries), (r, FetchVolumesMeta (series_id s))] \<and>
        map_of (store (do_track g w r st)) (url_from_series_slug w (raw_slug s)) =
          Some (JDict [(''part_date'', JStr ''1111-11-11T11:11:11.111Z''), (''part'', JInt 0),
                       (''name'', JStr (raw_title s))])
      else
        (\<exists>ps. fetch_parts_meta g (volume_id (last vols)) = Inr ps \<and>
           calls (do_track g w r st) =
             calls st @ [(r, ResolveSeries), (r, FetchVolumesMeta (series_id s)),
                         (r, FetchPartsMeta (volume_id (last vols)))] \<and>
           map_of (store (do_track g w r st)) (url_from_series_slug w (raw_slug s)) =
             Some (if ps = [] then
                     JDict [(''part_date'', JStr ''1111-11-11T11:11:11.111Z''), (''part'', JInt 0),
                            (''name'', JStr (raw_title s))]
                   else
                     JDict [(''part_date'', JStr (launch (last ps))),
                            (''part'', to_relative_spec_from_part g
                                (s\<lparr>volumes := butlast vols @ [(last vols)\<lparr>parts := ps\<rparr>]\<rparr>)
                                (last ps)),
                            (''name'', JStr (raw_title s))])))"
proof (cases rule: do_track_cases [of g r w st])
  case (resolve_failed e)
  with assms show ?thesis by simp
next
  case (track_failed s e cs)
  with assms show ?thesis by simp
next
  case (tracked s T' cs)
  from track_series_cases [OF tracked(2)] obtain vols where
    v: "fetch_volumes_meta g (series_id s) = Inr vols"
    and c: "if vols = [] then
         cs = [(r, FetchVolumesMeta (series_id s))] \<and>
         T' = AList.update (url_from_series_slug w (raw_slug s))
                (JDict [(''part_date'', JStr ''1111-11-11T11:11:11.111Z''), (''part'', JInt 0),
                        (''name'', JStr (raw_title s))]) (store st)
       else
         (\<exists>ps. fetch_parts_meta g (volume_id (last vols)) = Inr ps \<and>
            cs = [(r, FetchVolumesMeta (series_id s)),
                  (r, FetchPartsMeta (volume_id (last vols)))] \<and>
            (if ps = [] then
               T' = AList.update (url_from_series_slug w (raw_slug s))
                      (JDict [(''part_date'', JStr ''1111-11-11T11:11:11.111Z''), (''part'', JInt 0),
                              (''name'', JStr (raw_title s))]) (store st)
             else
               T' = AList.update (url_from_series_slug w (raw_slug s))
                      (JDict [(''part_date'', JStr (launch (last ps))),
                              (''part'', to_relative_spec_from_part g
                                  (s\<lparr>volumes := butlast vols @ [(last vols)\<lparr>parts := ps\<rparr>]\<rparr>)
                                  (last ps)),
                              (''name'', JStr (raw_title s))]) (store st)))"
    by blast
  show ?thesis
  proof (cases "vols = []")
    case True
    with c tracked(1,3) v show ?thesis
      by (intro exI [of _ s] exI [of _ vols]) (simp add: update_conv')
  next
    case False
    with c obtain ps where ps: "fetch_parts_meta g (volume_id (last vols)) = Inr ps"
      and cs: "cs = [(r, FetchVolumesMeta (series_id s)),
                  (r, FetchPartsMeta (volume_id (last vols)))]"
      and T': "if ps = [] then
               T' = AList.update (url_from_series_slug w (raw_slug s))
                      (JDict [(''part_date'', JStr ''1111-11-11T11:11:11.111Z''), (''part'', JInt 0),
                              (''name'', JStr (raw_title s))]) (store st)
             else
               T' = AList.update (url_from_series_slug w (raw_slug s))
                      (JDict [(''part_date'', JStr (launch (last ps))),
                              (''part'', to_relative_spec_from_part g
                                  (s\<lparr>volumes := butlast vols @ [(last vols)\<lparr>parts := ps\<rparr>]\<rparr>)
                                  (last ps)),
                              (''name'', JStr (raw_title s))]) (store st)"
      by auto
    have "map_of T' (url_from_series_slug w (raw_slug s)) =
             Some (if ps = [] then
                     JDict [(''part_date'', JStr ''1111-11-11T11:11:11.111Z''), (''part'', JInt 0),
                            (''name'', JStr (raw_title s))]
                   else
                     JDict [(''part_date'', JStr (launch (last ps))),
                            (''part'', to_relative_spec_from_part g
                                (s\<lparr>volumes := butlast vols @ [(last vols)\<lparr>parts := ps\<rparr>]\<rparr>)
                                (last ps)),
                            (''name'', JStr (raw_title s))])"
      using T' by (cases "ps = []") (simp_all add: update_conv')
    with False tracked(1,3) v ps cs show ?thesis
      by (intro exI [of _ s] exI [of _ vols]) simp
  qed
qed

theorem do_track_records_last_part_witness:
  "failures (do_track example_gateway example_jncweb (example_resource ''a'')
     \<lparr>store = [(''https://j-novel.club/series/b'', JAddict [(''name'', JStr ''B'')])],
      new_synced = [], del_synced = [], calls = [], failures = []\<rparr>) = []
   \<and> map_of (store (do_track example_gateway example_jncweb (example_resource ''a'')
     \<lparr>store = [(''https://j-novel.club/series/b'', JAddict [(''name'', JStr ''B'')])],
      new_synced = [], del_synced = [], calls = [], failures = []\<rparr>))
       ''https://j-novel.club/series/a''
     = Some (JDict [(''part_date'', JStr ''2021-03-04T05:06:07.000Z''), (''part'', JInt 1),
                    (''name'', JStr ''A'')])"
proof -
  let ?st = "\<lparr>store = [(''https://j-novel.club/series/b'', JAddict [(''name'', JStr ''B'')])],
      new_synced = [], del_synced = [], calls = [], failures = []\<rparr>"
  let ?r = "example_resource ''a''"
  have h: "failures (do_track example_gateway example_jncweb ?r ?st) = failures ?st"
    by (simp add: example_do_track)
  from do_track_records_last_part [OF h] obtain s vols
    where s: "resolve_series example_gateway ?r = Inr s"
      and v: "fetch_volumes_meta example_gateway (series_id s) = Inr vols"
      and c: "if vols = [] then
        calls (do_track example_gateway example_jncweb ?r ?st) =
          calls ?st @ [(?r, ResolveSeries), (?r, FetchVolumesMeta (series_id s))] \<and>
        map_of (store (do_track example_gateway example_jncweb ?r ?st))
            (url_from_series_slug example_jncweb (raw_slug s)) =
          Some (JDict [(''part_date'', JStr ''1111-11-11T11:11:11.111Z''), (''part'', JInt 0),
                       (''name'', JStr (raw_title s))])
      else
        (\<exists>ps. fetch_parts_meta example_gateway (volume_id (last vols)) = Inr ps \<and>
           calls (do_track example_gateway example_jncweb ?r ?st) =
             calls ?st @ [(?r, ResolveSeries), (?r, FetchVolumesMeta (series_id s)),
                         (?r, FetchPartsMeta (volume_id (last vols)))] \<and>
           map_of (store (do_track example_gateway example_jncweb ?r ?st))
               (url_from_series_slug example_jncweb (raw_slug s)) =
             Some (if ps = [] then
                     JDict [(''part_date'', JStr ''1111-11-11T11:11:11.111Z''), (''part'', JInt 0),
                            (''name'', JStr (raw_title s))]
                   else
                     JDict [(''part_date'', JStr (launch (last ps))),
                            (''part'', to_relative_spec_from_part example_gateway
                                (s\<lparr>volumes := butlast vols @ [(last vols)\<lparr>parts := ps\<rparr>]\<rparr>)
                                (last ps)),
                            (''name'', JStr (raw_title s))]))"
    by blast
  from v have "vols \<noteq> []" by (auto simp: example_gateway_def)
  with c obtain ps where ps: "fetch_parts_meta example_gateway (volume_id (last vols)) = Inr ps"
    and m: "map_of (store (do_track example_gateway example_jncweb ?r ?st))
               (url_from_series_slug example_jncweb (raw_slug s)) =
             Some (if ps = [] then
                     JDict [(''part_date'', JStr ''1111-11-11T11:11:11.111Z''), (''part'', JInt 0),
                            (''name'', JStr (raw_title s))]
                   else
                     JDict [(''part_date'', JStr (launch (last ps))),
                            (''part'', to_relative_spec_from_part example_gateway
                                (s\<lparr>volumes := butlast vols @ [(last vols)\<lparr>parts := ps\<rparr>]\<rparr>)
                                (last ps)),
                            (''name'', JStr (raw_title s))])"
    by auto
  from s have slug: "url_from_series_slug example_jncweb (raw_slug s) = ''https://j-novel.club/series/a''"
    by (auto simp: example_gateway_def example_jncweb_def example_resource_def)
  from h m show ?thesis
    unfolding slug by (simp add: example_do_track)
qed

subsection \<open>Forward synchronisation with deletion\<close>

text \<open>
  The deletion loop raises when it removes an entry whose value does not allow
  attribute access: here the first entry is a plain dictionary, as \<^verbatim>\<open>track_series\<close>
  writes it, and is not followed. The entry is removed, nothing is returned, and the
  second entry, not followed either, stays.
\<close>

lemma example_forward_plain_dict:
  "sync_series_forward example_gateway example_jncweb (\<lambda>ts. ts) []
     [(''https://j-novel.club/series/a'',
       JDict [(''part_date'', JStr ''1111-11-11T11:11:11.111Z''), (''part'', JInt 0),
              (''name'', JStr ''A'')]),
      (''https://j-novel.club/series/b'', JAddict [(''name'', JStr ''B'')])] True
   = \<lparr>store = [(''https://j-novel.club/series/b'', JAddict [(''name'', JStr ''B'')])],
      new_synced = [], del_synced = [], calls = [], failures = [AttributeError]\<rparr>"
  by (simp add: sync_series_forward_unfold Let_def)

text \<open>
  Claim C1. Let the remote service resolve every followed series to the series of
  that URL, and let \<^verbatim>\<open>sync_series_forward\<close> with \<^verbatim>\<open>is_delete\<close> set complete, that
  is, return its pair of lists: all tasks succeed and the deletion loop raises
  nothing. Then, whatever the order in which the tasks complete, the keys of the
  store are exactly the URLs of the follow list; the returned additions are the
  followed URLs that were not tracked, the returned removals the tracked keys that
  are not followed.
\<close>

theorem sync_series_forward_delete_keys:
  assumes sched: "\<And>ts. mset (sched ts) = mset ts"
    and consistent: "\<And>f s. f \<in> set follows \<Longrightarrow> resolve_series g f = Inr s \<Longrightarrow>
                       url_from_series_slug w (raw_slug s) = url f"
    and ok: "outcome (sync_series_forward g w sched follows T True) = Inr (added, removed)"
  shows "set (dict_keys (store (sync_series_forward g w sched follows T True))) = url ` set follows
       \<and> set added = {url f | f. f \<in> set follows \<and> \<not> dict_contains (url f) T}
       \<and> set removed = {k \<in> set (dict_keys T). k \<notin> url ` set follows}"
proof -
  let ?pend = "filter (\<lambda>f. \<not> dict_contains (url f) T) follows"
  let ?st0 = "\<lparr>store = T, new_synced = [], del_synced = [], calls = [], failures = []\<rparr>"
  let ?st1 = "run_tasks (do_track g w) (sched ?pend) ?st0"
  let ?res = "sync_series_forward g w sched follows T True"
  let ?u = "\<lambda>r. url_from_series_slug w (raw_slug (projr (resolve_series g r)))"
  have res: "?res = (if failures ?st1 \<noteq> [] then ?st1
                     else delete_unfollowed (map url follows) (store ?st1) ?st1)"
    by (simp add: sync_series_forward_unfold Let_def)
  from ok have f: "failures ?res = []" and a: "added = new_synced ?res"
    and r: "removed = del_synced ?res"
    by (simp_all add: outcome_Inr)
  have f1: "failures ?st1 = []"
  proof (rule ccontr)
    assume "failures ?st1 \<noteq> []"
    with res f show False by simp
  qed
  with res have res': "?res = delete_unfollowed (map url follows) (store ?st1) ?st1" by simp
  have sset: "set (sched ?pend) = set ?pend"
    using sched [of ?pend] by (rule mset_eq_setD)
  from run_do_track_ok [OF f1]
  have all: "\<forall>r \<in> set ?pend. \<exists>s. resolve_series g r = Inr s"
    and keys1: "fst ` set (store ?st1) = fst ` set T \<union> ?u ` set ?pend"
    and new1: "set (new_synced ?st1) = ?u ` set ?pend"
    by (simp_all add: sset)
  have u: "?u r = url r" if "r \<in> set ?pend" for r
  proof -
    from all that obtain s where s: "resolve_series g r = Inr s" by blast
    from that have "r \<in> set follows" by simp
    from consistent [OF this s] s show ?thesis by simp
  qed
  then have img: "?u ` set ?pend = url ` set ?pend" by (intro image_cong) auto
  have pend: "url ` set ?pend = {url f | f. f \<in> set follows \<and> \<not> dict_contains (url f) T}"
    by auto
  have keysT: "fst ` set T = set (dict_keys T)" by (simp add: dict_keys_def)
  have cover: "url ` set follows \<subseteq> fst ` set T \<union> url ` set ?pend"
    by (auto simp: dict_contains_def dict_keys_def)
  from f have "failures (delete_unfollowed (map url follows) (store ?st1) ?st1) = []"
    unfolding res' .
  from delete_unfollowed_ok [OF this]
  have dk: "fst ` set (store (delete_unfollowed (map url follows) (store ?st1) ?st1)) =
              fst ` set (store ?st1) - {k \<in> fst ` set (store ?st1). k \<notin> set (map url follows)}"
    and dd: "set (del_synced (delete_unfollowed (map url follows) (store ?st1) ?st1)) =
              set (del_synced ?st1) \<union> {k \<in> fst ` set (store ?st1). k \<notin> set (map url follows)}"
    by blast+
  have "fst ` set (store ?res) = fst ` set (store ?st1) - {k \<in> fst ` set (store ?st1). k \<notin> set (map url follows)}"
    unfolding res' by (rule dk)
  also have "\<dots> = url ` set follows"
    unfolding keys1 img using cover by auto
  finally have k: "set (dict_keys (store ?res)) = url ` set follows"
    by (simp add: dict_keys_def)
  have n: "set added = {url f | f. f \<in> set follows \<and> \<not> dict_contains (url f) T}"
    unfolding a res' using new1 img pend by simp
  have "set removed = {k \<in> fst ` set (store ?st1). k \<notin> set (map url follows)}"
    unfolding r res' dd by simp
  also have "\<dots> = {k \<in> set (dict_keys T). k \<notin> url ` set follows}"
    unfolding keys1 img keysT by auto
  finally have d: "set removed = {k \<in> set (dict_keys T). k \<notin> url ` set follows}" .
  from k n d show ?thesis by blast
qed

theorem sync_series_forward_delete_keys_witness:
  "outcome (sync_series_forward example_gateway example_jncweb (\<lambda>ts. ts)
        [example_resource ''a'']
        [(''https://j-novel.club/series/b'', JAddict [(''name'', JStr ''B'')])] True)
     = Inr ([''https://j-novel.club/series/a''], [''https://j-novel.club/series/b''])
   \<and> set (dict_keys (store (sync_series_forward example_gateway example_jncweb (\<lambda>ts. ts)
        [example_resource ''a'']
        [(''https://j-novel.club/series/b'', JAddict [(''name'', JStr ''B'')])] True)))
     = {''https://j-novel.club/series/a''}"
proof -
  have ok: "outcome (sync_series_forward example_gateway example_jncweb (\<lambda>ts. ts)
        [example_resource ''a'']
        [(''https://j-novel.club/series/b'', JAddict [(''name'', JStr ''B'')])] True)
     = Inr ([''https://j-novel.club/series/a''], [''https://j-novel.club/series/b''])"
    by (simp add: example_forward outcome_def)
  have consistent: "url_from_series_slug example_jncweb (raw_slug s) = url f"
    if "f \<in> set [example_resource ''a'']" "resolve_series example_gateway f = Inr s" for f s
  proof -
    from that(1) have f: "f = example_resource ''a''" by simp
    from that(2) have "raw_slug s = drop 28 (url f)"
      by (auto simp: example_gateway_def)
    then show ?thesis
      by (simp add: f example_jncweb_def example_resource_def)
  qed
  have "set (dict_keys (store (sync_series_forward example_gateway example_jncweb (\<lambda>ts. ts)
        [example_resource ''a'']
        [(''https://j-novel.club/series/b'', JAddict [(''name'', JStr ''B'')])] True)))
     = url ` set [example_resource ''a'']"
    using sync_series_forward_delete_keys [OF identity_schedule consistent ok]
    by (rule conjunct1)
  then have "set (dict_keys (store (sync_series_forward example_gateway example_jncweb (\<lambda>ts. ts)
        [example_resource ''a'']
        [(''https://j-novel.club/series/b'', JAddict [(''name'', JStr ''B'')])] True)))
     = {''https://j-novel.club/series/a''}"
    by (simp add: example_resource_def)
  with ok show ?thesis by (rule conjI)
qed

subsection \<open>No call for a tracked series\<close>

text \<open>
  Claim C8. Forward synchronisation issues no call (resolution, volumes or parts) on
  behalf of a resource whose URL is already a key of the store, whether or not the
  tasks succeed and whatever \<^verbatim>\<open>is_delete\<close> is.
\<close>

theorem sync_series_forward_skips_tracked:
  assumes sched: "\<And>ts. mset (sched ts) = mset ts"
    and tracked: "dict_contains (url f) T"
  shows "filter (\<lambda>c. url (fst c) = url f)
           (calls (sync_series_forward g w sched follows T is_delete)) = []"
proof -
  let ?pend = "filter (\<lambda>f. \<not> dict_contains (url f) T) follows"
  let ?st0 = "\<lparr>store = T, new_synced = [], del_synced = [], calls = [], failures = []\<rparr>"
  let ?st1 = "run_tasks (do_track g w) (sched ?pend) ?st0"
  have c: "calls (sync_series_forward g w sched follows T is_delete) = calls ?st1"
    by (simp add: sync_series_forward_unfold Let_def)
  have sset: "set (sched ?pend) = set ?pend"
    using sched [of ?pend] by (rule mset_eq_setD)
  have "set (calls ?st1) \<subseteq> {c. fst c \<in> set ?pend}"
    using run_do_track_calls [of g w "sched ?pend" ?st0] by (simp add: sset)
  then have "\<forall>c \<in> set (calls ?st1). url (fst c) \<noteq> url f"
    using tracked by auto
  then show ?thesis
    unfolding c by (simp add: filter_empty_conv)
qed

theorem sync_series_forward_skips_tracked_witness:
  "filter (\<lambda>c. url (fst c) = ''https://j-novel.club/series/b'')
     (calls (sync_series_forward example_gateway example_jncweb (\<lambda>ts. ts)
        [example_resource ''a'', example_resource ''b'']
        [(''https://j-novel.club/series/b'', JAddict [(''name'', JStr ''B'')])] False)) = []"
proof -
  have t: "dict_contains (url (example_resource ''b''))
             [(''https://j-novel.club/series/b'', JAddict [(''name'', JStr ''B'')])]"
    by (simp add: dict_contains_def dict_keys_def example_resource_def)
  have u: "url (example_resource ''b'') = ''https://j-novel.club/series/b''"
    by (simp add: example_resource_def)
  from sync_series_forward_skips_tracked [OF identity_schedule t]
  show ?thesis unfolding u .
qed

subsection \<open>Forward synchronisation without deletion\<close>

text \<open>
  Claim C9. With \<^verbatim>\<open>is_delete\<close> unset, forward synchronisation records no removal
  and returns none, every key of the store is still a key afterwards, and with an
  empty follow list the store is returned as it was, with empty additions and
  removals.
\<close>

theorem sync_series_forward_no_delete:
  assumes sched: "\<And>ts. mset (sched ts) = mset ts"
  shows "del_synced (sync_series_forward g w sched follows T False) = []
       \<and> (\<forall>added removed.
             outcome (sync_series_forward g w sched follows T False) = Inr (added, removed)
             \<longrightarrow> removed = [])
       \<and> set (dict_keys T) \<subseteq> set (dict_keys (store (sync_series_forward g w sched follows T False)))
       \<and> store (sync_series_forward g w sched [] T False) = T
       \<and> outcome (sync_series_forward g w sched [] T False) = Inr ([], [])"
proof -
  let ?pend = "filter (\<lambda>f. \<not> dict_contains (url f) T) follows"
  let ?st0 = "\<lparr>store = T, new_synced = [], del_synced = [], calls = [], failures = []\<rparr>"
  let ?st1 = "run_tasks (do_track g w) (sched ?pend) ?st0"
  have res: "sync_series_forward g w sched follows T False = ?st1"
    by (simp add: sync_series_forward_unfold Let_def)
  have d: "del_synced (sync_series_forward g w sched follows T False) = []"
    unfolding res by simp
  have k: "set (dict_keys T) \<subseteq> set (dict_keys (store (sync_series_forward g w sched follows T False)))"
    unfolding res using run_do_track_keys_mono [of ?st0 g w "sched ?pend"]
    by (simp add: dict_keys_def)
  have "sched [] = []" using sched [of "[]"] by simp
  then have e: "sync_series_forward g w sched [] T False = ?st0"
    by (simp add: sync_series_forward_unfold Let_def)
  from d k e show ?thesis
    by (simp add: outcome_def)
qed

theorem sync_series_forward_no_delete_witness:
  "store (sync_series_forward example_gateway example_jncweb (\<lambda>ts. ts) []
        [(''https://j-novel.club/series/b'', JAddict [(''name'', JStr ''B'')])] False)
     = [(''https://j-novel.club/series/b'', JAddict [(''name'', JStr ''B'')])]
   \<and> outcome (sync_series_forward example_gateway example_jncweb (\<lambda>ts. ts) []
        [(''https://j-novel.club/series/b'', JAddict [(''name'', JStr ''B'')])] False)
     = Inr ([], [])"
  using sync_series_forward_no_delete [OF identity_schedule, of example_gateway example_jncweb "[]"
      "[(''https://j-novel.club/series/b'', JAddict [(''name'', JStr ''B'')])]"]
  by blast

section \<open>Properties of loading\<close>

text \<open>
  Claim C6. \<^verbatim>\<open>read_tracked_series\<close> returns the empty store when the file is
  absent; when the file exists and parses, it returns what the migration returns for
  the parsed mapping; and an exception of the parser (a malformed document raises
  \<^verbatim>\<open>JSONDecodeError\<close>, which is not \<^verbatim>\<open>FileNotFoundError\<close>) reaches the caller.
\<close>

theorem read_tracked_series_cases:
  "read_tracked_series w json_load None = Inr []
   \<and> (json_load text = Inr data \<longrightarrow>
        convert_to_latest_format w data \<noteq> Inl FileNotFoundError \<longrightarrow>
        read_tracked_series w json_load (Some text) = convert_to_latest_format w data)
   \<and> (json_load text = Inl e \<longrightarrow> e \<noteq> FileNotFoundError \<longrightarrow>
        read_tracked_series w json_load (Some text) = Inl e)"
  by (cases "convert_to_latest_format w data")
     (simp_all add: read_tracked_series_def)

theorem read_tracked_series_cases_witness:
  "read_tracked_series example_jncweb
      (\<lambda>text. if text = ''legacy'' then
         Inr [(''my-series'', JInt 3),
              (''https://j-novel.club/s/other'',
               JAddict [(''name'', JStr ''Other''), (''part'', JInt 7)])]
       else Inl JSONDecodeError) (Some ''legacy'')
     = Inr [(''https://j-novel.club/series/my-series'',
              JAddict [(''name'', JStr ''My Series''), (''part'', JInt 3)]),
            (''https://j-novel.club/series/other'',
              JAddict [(''name'', JStr ''Other''), (''part'', JInt 7)])]
   \<and> read_tracked_series example_jncweb
      (\<lambda>text. if text = ''legacy'' then
         Inr [(''my-series'', JInt 3),
              (''https://j-novel.club/s/other'',
               JAddict [(''name'', JStr ''Other''), (''part'', JInt 7)])]
       else Inl JSONDecodeError) (Some ''{'')
     = Inl JSONDecodeError"
proof -
  let ?load = "\<lambda>text. if text = ''legacy'' then
         Inr [(''my-series'', JInt 3),
              (''https://j-novel.club/s/other'',
               JAddict [(''name'', JStr ''Other''), (''part'', JInt 7)])]
       else Inl JSONDecodeError"
  have 1: "?load ''legacy'' = Inr [(''my-series'', JInt 3),
              (''https://j-novel.club/s/other'',
               JAddict [(''name'', JStr ''Other''), (''part'', JInt 7)])]"
    by simp
  have 2: "?load ''{'' = Inl JSONDecodeError" by simp
  have a: "read_tracked_series example_jncweb ?load (Some ''legacy'') =
        convert_to_latest_format example_jncweb [(''my-series'', JInt 3),
              (''https://j-novel.club/s/other'',
               JAddict [(''name'', JStr ''Other''), (''part'', JInt 7)])]"
    using read_tracked_series_cases [of example_jncweb ?load "''legacy''"
        "[(''my-series'', JInt 3),
              (''https://j-novel.club/s/other'',
               JAddict [(''name'', JStr ''Other''), (''part'', JInt 7)])]"] 1
    by (simp only: example_legacy) simp
  have b: "read_tracked_series example_jncweb ?load (Some ''{'') = Inl JSONDecodeError"
    using read_tracked_series_cases [of example_jncweb ?load "''{''" _ JSONDecodeError] 2
    by (simp only:) simp
  from a b show ?thesis by (simp only: example_legacy)
qed

section \<open>Properties of backward synchronisation\<close>

text \<open>
  Every URL that \<^verbatim>\<open>sync_series_backward\<close> reports as added is the value of the loop
  variable after the loop, that is, the last key of the store.
\<close>

lemma do_follow_new_synced:
  "set (new_synced (do_follow g series_url r st)) \<subseteq> set (new_synced st) \<union> set_option series_url"
  by (auto simp: do_follow_def split: sum.splits option.splits)

lemma do_undollow_new_synced [simp]:
  "new_synced (do_undollow g r st) = new_synced st"
  by (simp add: do_undollow_def split: sum.splits)

lemma run_backward_new_synced:
  "set (new_synced (run_tasks (run_backward_task g series_url) ts st))
     \<subseteq> set (new_synced st) \<union> set_option series_url"
proof (induction ts arbitrary: st)
  case Nil
  then show ?case by simp
next
  case (Cons t ts)
  have "set (new_synced (run_backward_task g series_url t st))
          \<subseteq> set (new_synced st) \<union> set_option series_url"
    using do_follow_new_synced [of g series_url _ st] by (cases t) simp_all
  with Cons.IH [of "run_backward_task g series_url t st"] show ?case by auto
qed

lemma sync_series_backward_new_synced:
  "set (new_synced (sync_series_backward g w sched follows T is_delete))
     \<subseteq> set_option (loop_variable (dict_keys T))"
proof (cases "spawn_follows w (map url follows) (dict_keys T) []")
  case (Inl e)
  then show ?thesis by (simp add: sync_series_backward_def)
next
  case (Inr rs)
  then show ?thesis
    using run_backward_new_synced [of g "loop_variable (dict_keys T)" _
        "\<lparr>store = T, new_synced = [], del_synced = [], calls = [], failures = []\<rparr>"]
    by (simp add: sync_series_backward_def Let_def)
qed

lemma example_backward:
  "sync_series_backward example_gateway example_jncweb (\<lambda>ts. ts) [example_resource ''b'']
     [(''https://j-novel.club/series/a'', JAddict [(''name'', JStr ''A'')]),
      (''https://j-novel.club/series/b'', JAddict [(''name'', JStr ''B'')])] True
   = \<lparr>store = [(''https://j-novel.club/series/a'', JAddict [(''name'', JStr ''A'')]),
                (''https://j-novel.club/series/b'', JAddict [(''name'', JStr ''B'')])],
      new_synced = [''https://j-novel.club/series/b''],
      del_synced = [],
      calls = [(\<lparr>url = ''https://j-novel.club/series/a'', follow_id = [], follow_title = []\<rparr>,
                ResolveSeries),
               (\<lparr>url = ''https://j-novel.club/series/a'', follow_id = [], follow_title = []\<rparr>,
                FollowSeries ''id-a'')],
      failures = []\<rparr>"
  by (simp add: sync_series_backward_def dict_keys_def dict_contains_def loop_variable_def
        do_follow_def Let_def example_defs title_def islower_def isupper_def
        toupper_def tolower_def ascii_lowercase_def ascii_uppercase_def)

text \<open>
  Claim C2 asks that the returned additions be the tracked URLs that were not
  followed. With the store \<open>{a, b}\<close> and the follow list \<open>[b]\<close>, the remote follow is
  issued for \<open>a\<close>, as the claim says, but the function returns \<open>b\<close> as added: the
  closure \<^verbatim>\<open>do_follow\<close> appends the loop variable \<^verbatim>\<open>series_url\<close>, which holds the
  last key of the store by the time the task runs.
\<close>

theorem sync_series_backward_reports_last_key:
  "outcome (sync_series_backward example_gateway example_jncweb (\<lambda>ts. ts)
       [example_resource ''b'']
       [(''https://j-novel.club/series/a'', JAddict [(''name'', JStr ''A'')]),
        (''https://j-novel.club/series/b'', JAddict [(''name'', JStr ''B'')])] True)
     = Inr ([''https://j-novel.club/series/b''], [])
   \<and> calls (sync_series_backward example_gateway example_jncweb (\<lambda>ts. ts)
       [example_resource ''b'']
       [(''https://j-novel.club/series/a'', JAddict [(''name'', JStr ''A'')]),
        (''https://j-novel.club/series/b'', JAddict [(''name'', JStr ''B'')])] True)
     = [(\<lparr>url = ''https://j-novel.club/series/a'', follow_id = [], follow_title = []\<rparr>,
          ResolveSeries),
        (\<lparr>url = ''https://j-novel.club/series/a'', follow_id = [], follow_title = []\<rparr>,
          FollowSeries ''id-a'')]"
  by (simp add: example_backward outcome_def)

end
